theory Spec2Isabelle
  imports Main
begin

section \<open>The world outside the program\<close>

text \<open>
  \<^verbatim>\<open>utils.py\<close> is glue around three collaborators: the \<^verbatim>\<open>requests\<close> HTTP client, the
  \<^verbatim>\<open>zipfile\<close> library and the file system. The embedding passes an explicit world
  (the files on disk and the sequence of observable events, standard output included)
  through every function; an exception is the \<open>Inl\<close> branch of the result.
\<close>

type_synonym path = string
type_synonym bytes = "char list"

datatype node = Dir | File bytes

datatype errno = ENOENT | ENOTDIR | EISDIR | EACCES | ENOSPC

text \<open>
  The exceptions that can travel through the four functions. \<open>FileNotFoundError\<close> carries
  the message given by the code at line 82; \<open>OSError\<close> stands for the subclasses of
  \<^verbatim>\<open>OSError\<close> raised by the operating system (\<open>ENOENT\<close> is Python's
  \<^verbatim>\<open>FileNotFoundError\<close>, \<open>ENOTDIR\<close> its \<^verbatim>\<open>NotADirectoryError\<close>, \<open>EISDIR\<close> its
  \<^verbatim>\<open>IsADirectoryError\<close>, \<open>EACCES\<close> its \<^verbatim>\<open>PermissionError\<close>). \<open>ZlibError\<close> is
  \<^verbatim>\<open>zlib.error\<close>; with \<open>NotImplementedError\<close>, \<open>UnicodeDecodeError\<close> and
  \<open>RuntimeError\<close> it is what \<^verbatim>\<open>zipfile\<close> raises besides \<^verbatim>\<open>BadZipFile\<close>. \<open>HTTPError\<close> and \<open>ConnectionError\<close> are the two kinds of
  \<^verbatim>\<open>requests.exceptions.RequestException\<close> distinguished here.
\<close>

datatype error =
    HTTPError nat
  | ConnectionError
  | FileNotFoundError string
  | OSError errno path
  | BadZipFile
  | ZlibError
  | NotImplementedError
  | UnicodeDecodeError
  | RuntimeError
  | ValueError
  | ZeroDivisionError
  | OverflowError
  | IndexError

fun is_RequestException :: "error \<Rightarrow> bool" where
  "is_RequestException (HTTPError _) = True"
| "is_RequestException ConnectionError = True"
| "is_RequestException _ = False"

fun is_BadZipFile :: "error \<Rightarrow> bool" where
  "is_BadZipFile BadZipFile = True"
| "is_BadZipFile _ = False"

text \<open>
  Observable events, in the order in which they happen: the calls that the code of
  \<^verbatim>\<open>utils.py\<close> itself makes. \<open>Print s\<close> is the text \<open>s\<close> written to standard output;
  \<open>PrintExc p e\<close> is the line \<^verbatim>\<open>print(f"{p}{e}")\<close>, whose text is the prefix \<open>p\<close>
  followed by \<^verbatim>\<open>str(e)\<close>. What a library does inside one of its calls shows in the
  file system only.
\<close>

datatype event =
    Print string
  | PrintExc string error
  | HttpGet string
  | OpenWrite path
  | Write path bytes
  | Exists path
  | ZipOpen path
  | Remove path

text \<open>
  The value of \<^verbatim>\<open>response.headers.get('content-length', 0)\<close> as \<^verbatim>\<open>int\<close> reads it: the
  header is absent, or holds an integer literal, or holds something \<^verbatim>\<open>int\<close> rejects.
\<close>

datatype header = Absent | Value int | Malformed

text \<open>
  A response of \<^verbatim>\<open>requests.get(url, stream=True)\<close>: the chunks that \<^verbatim>\<open>iter_content\<close>
  delivers, and the exception (if any) raised once they are consumed, when the connection
  breaks in the middle of the body.
\<close>

record response =
  status_code :: nat
  content_length :: header
  body :: "bytes list"
  body_error :: "error option"

text \<open>
  A member of a zip archive as \<^verbatim>\<open>extractall\<close> meets it. \<open>Member n d\<close> is a file stored
  intact. \<open>DamagedHeader n e\<close> is a member that the library refuses when it opens it,
  before the target file is created, raising \<open>e\<close> (a bad local header gives
  \<^verbatim>\<open>BadZipFile\<close>, an unsupported compression method \<^verbatim>\<open>NotImplementedError\<close>).
  \<open>DamagedData n d e\<close> is a member whose damage shows while its data is copied (a bad
  CRC gives \<^verbatim>\<open>BadZipFile\<close>, a broken deflate stream \<^verbatim>\<open>zlib.error\<close>): the target has
  been created and holds the bytes \<open>d\<close> that were copied before the failing read, often
  none.
\<close>

datatype member =
    Member path bytes
  | DamagedHeader path error
  | DamagedData path bytes error

datatype access = Reading | Writing | Deleting

text \<open>
  The collaborators: what \<^verbatim>\<open>requests.get\<close> answers for a URL; how \<^verbatim>\<open>zipfile.ZipFile\<close>
  reads the bytes of a file (the exception it raises, or the members it finds); the path
  under the destination directory at which the library writes a member; and
  \<open>os_denies\<close>, which stands for all that the operating system knows beyond the map of
  files: for an access to a path in a given state it tells the error raised, if any (a
  missing parent directory is \<open>ENOENT\<close>, a parent that is a regular file \<open>ENOTDIR\<close>,
  a missing permission \<open>EACCES\<close>).
\<close>

record env =
  requests_get :: "string \<Rightarrow> error + response"
  zip_parse :: "bytes \<Rightarrow> error + member list"
  zip_target :: "path \<Rightarrow> path \<Rightarrow> path"
  os_denies :: "access \<Rightarrow> (path \<rightharpoonup> node) \<Rightarrow> path \<Rightarrow> errno option"

record world =
  fs :: "path \<rightharpoonup> node"
  trace :: "event list"

definition emit :: "event \<Rightarrow> world \<Rightarrow> world" where
  "emit ev w = w\<lparr>trace := trace w @ [ev]\<rparr>"

definition println :: "string \<Rightarrow> world \<Rightarrow> world" where
  "println s w = emit (Print (s @ [CHR 0x0A])) w"

subsection \<open>File-system calls\<close>

definition os_path_exists :: "path \<Rightarrow> world \<Rightarrow> bool \<times> world" where
  "os_path_exists p w = (fs w p \<noteq> None, emit (Exists p) w)"

text \<open>
  What stops the creation of a file at \<open>p\<close>, if anything: an empty name, a directory
  at that path, or the operating system.
\<close>

definition write_check :: "env \<Rightarrow> (path \<rightharpoonup> node) \<Rightarrow> path \<Rightarrow> errno option" where
  "write_check E files p =
     (if p = [] then Some ENOENT
      else if files p = Some Dir then Some EISDIR
      else os_denies E Writing files p)"

text \<open>\<^verbatim>\<open>open(p, 'wb')\<close>: creates the file or truncates it.\<close>

definition open_wb :: "env \<Rightarrow> path \<Rightarrow> world \<Rightarrow> (error + unit) \<times> world" where
  "open_wb E p w =
     (let w1 = emit (OpenWrite p) w in
      case write_check E (fs w) p of
        Some n \<Rightarrow> (Inl (OSError n p), w1)
      | None \<Rightarrow> (Inr (), w1\<lparr>fs := (fs w)(p \<mapsto> File [])\<rparr>))"

fun file_bytes :: "node option \<Rightarrow> bytes" where
  "file_bytes (Some (File b)) = b"
| "file_bytes _ = []"

text \<open>\<^verbatim>\<open>f.write(data)\<close> on the file opened at \<open>p\<close>: the data is appended.\<close>

definition file_write :: "path \<Rightarrow> bytes \<Rightarrow> world \<Rightarrow> world" where
  "file_write p data w =
     emit (Write p data) (w\<lparr>fs := (fs w)(p \<mapsto> File (file_bytes (fs w p) @ data))\<rparr>)"

definition os_remove :: "env \<Rightarrow> path \<Rightarrow> world \<Rightarrow> (error + unit) \<times> world" where
  "os_remove E p w =
     (let w1 = emit (Remove p) w in
      case fs w p of
        None \<Rightarrow> (Inl (OSError ENOENT p), w1)
      | Some Dir \<Rightarrow> (Inl (OSError EISDIR p), w1)
      | Some (File b) \<Rightarrow>
          (case os_denies E Deleting (fs w) p of
             Some n \<Rightarrow> (Inl (OSError n p), w1)
           | None \<Rightarrow> (Inr (), w1\<lparr>fs := (fs w)(p := None)\<rparr>)))"

section \<open>Python primitives used by the code\<close>

subsection \<open>\<^verbatim>\<open>str.split\<close> and indexing from the end\<close>

fun split_on :: "char \<Rightarrow> string \<Rightarrow> string list" where
  "split_on c [] = [[]]"
| "split_on c (x # xs) =
     (if x = c then [] # split_on c xs
      else (case split_on c xs of
              [] \<Rightarrow> [[x]]
            | y # ys \<Rightarrow> (x # y) # ys))"

definition index_last :: "'a list \<Rightarrow> error + 'a" where
  "index_last xs = (case xs of [] \<Rightarrow> Inl IndexError | _ # _ \<Rightarrow> Inr (last xs))"

subsection \<open>\<^verbatim>\<open>str\<close> of an integer\<close>

definition digit_char :: "nat \<Rightarrow> char" where
  "digit_char d = ''0123456789'' ! d"

function str_nat :: "nat \<Rightarrow> string" where
  "str_nat n = (if n < 10 then [digit_char n] else str_nat (n div 10) @ [digit_char (n mod 10)])"
  by pat_completeness auto
termination
  by (relation "measure id") auto

definition str_int :: "int \<Rightarrow> string" where
  "str_int i = (if i < 0 then CHR ''-'' # str_nat (nat (- i)) else str_nat (nat i))"

subsection \<open>True division of integers and truncation of a float\<close>

text \<open>
  \<^verbatim>\<open>a / b\<close> on two Python integers is the binary64 number nearest to the exact quotient,
  ties going to the even mantissa; \<^verbatim>\<open>int(x)\<close> truncates towards zero. A float is kept as
  mantissa and exponent: \<open>PyFloat m e\<close> is the number \<open>m * 2 ^ e\<close>.
\<close>

datatype pyfloat = PyFloat int int

function bit_length :: "nat \<Rightarrow> nat" where
  "bit_length n = (if n = 0 then 0 else Suc (bit_length (n div 2)))"
  by pat_completeness auto
termination
  by (relation "measure id") auto

text \<open>\<open>flog2 n d\<close> is the integer \<open>k\<close> with \<open>2 ^ k \<le> n / d < 2 ^ (k + 1)\<close>, for \<open>n, d > 0\<close>.\<close>

definition ge_pow2 :: "nat \<Rightarrow> nat \<Rightarrow> int \<Rightarrow> bool" where
  "ge_pow2 n d k = (if 0 \<le> k then d * 2 ^ nat k \<le> n else d \<le> n * 2 ^ nat (- k))"

definition flog2 :: "nat \<Rightarrow> nat \<Rightarrow> int" where
  "flog2 n d =
     (let k = int (bit_length n) - int (bit_length d)
      in if ge_pow2 n d k then k else k - 1)"

text \<open>The quotient \<open>n / d\<close> rounded to the nearest integer, ties to even.\<close>

definition round_half_even :: "nat \<Rightarrow> nat \<Rightarrow> nat" where
  "round_half_even n d =
     (let q = n div d; r = n mod d
      in if 2 * r < d then q
         else if d < 2 * r then q + 1
         else if even q then q else q + 1)"

definition py_truediv :: "int \<Rightarrow> int \<Rightarrow> error + pyfloat" where
  "py_truediv a b =
     (if b = 0 then Inl ZeroDivisionError
      else if a = 0 then Inr (PyFloat 0 0)
      else
        let n = nat \<bar>a\<bar>; d = nat \<bar>b\<bar>;
            e = max (flog2 n d - 52) (- 1074);
            m = (if 0 \<le> e then round_half_even n (d * 2 ^ nat e)
                 else round_half_even (n * 2 ^ nat (- e)) d)
        in if 971 < e \<or> (e = 971 \<and> 2 ^ 53 \<le> m) then Inl OverflowError
           else Inr (PyFloat ((if (a < 0) = (b < 0) then 1 else - 1) * int m) e))"

definition py_int :: "pyfloat \<Rightarrow> int" where
  "py_int x =
     (case x of PyFloat m e \<Rightarrow>
        if 0 \<le> e then m * 2 ^ nat e
        else sgn m * (\<bar>m\<bar> div 2 ^ nat (- e)))"

section \<open>The four functions of \<^verbatim>\<open>utils.py\<close>\<close>

subsection \<open>\<^verbatim>\<open>download_file\<close>\<close>

text \<open>Lines 26-27: \<^verbatim>\<open>url.split('/')[-1]\<close>.\<close>

definition derive_filename :: "string \<Rightarrow> error + string" where
  "derive_filename url = index_last (split_on CHR ''/'' url)"

text \<open>\<^verbatim>\<open>response.raise_for_status()\<close> raises for the statuses 400 to 599.\<close>

definition raise_for_status :: "response \<Rightarrow> error + unit" where
  "raise_for_status r =
     (if 400 \<le> status_code r \<and> status_code r < 600 then Inl (HTTPError (status_code r))
      else Inr ())"

text \<open>Line 35: \<^verbatim>\<open>int(response.headers.get('content-length', 0))\<close>.\<close>

definition total_size_of :: "response \<Rightarrow> error + int" where
  "total_size_of r =
     (case content_length r of
        Absent \<Rightarrow> Inr 0
      | Value n \<Rightarrow> Inr n
      | Malformed \<Rightarrow> Inl ValueError)"

text \<open>\<^verbatim>\<open>response.content\<close>: the whole body, or the exception that interrupts it.\<close>

definition response_content :: "response \<Rightarrow> error + bytes" where
  "response_content r =
     (case body_error r of
        Some e \<Rightarrow> Inl e
      | None \<Rightarrow> Inr (concat (body r)))"

text \<open>Lines 50-53: the progress line for the byte count reached so far.\<close>

definition progress_done :: "int \<Rightarrow> int \<Rightarrow> error + int" where
  "progress_done downloaded total_size =
     (case py_truediv (50 * downloaded) total_size of
        Inl e \<Rightarrow> Inl e
      | Inr x \<Rightarrow> Inr (py_int x))"

definition progress_percent :: "int \<Rightarrow> int \<Rightarrow> error + int" where
  "progress_percent downloaded total_size =
     (case py_truediv (100 * downloaded) total_size of
        Inl e \<Rightarrow> Inl e
      | Inr x \<Rightarrow> Inr (py_int x))"

definition progress_bar :: "int \<Rightarrow> string" where
  "progress_bar done = replicate (nat done) CHR ''='' @ replicate (nat (50 - done)) CHR '' ''"

definition progress_line :: "int \<Rightarrow> int \<Rightarrow> error + string" where
  "progress_line downloaded total_size =
     (case progress_done downloaded total_size of
        Inl e \<Rightarrow> Inl e
      | Inr done \<Rightarrow>
          (case progress_percent downloaded total_size of
             Inl e \<Rightarrow> Inl e
           | Inr percent \<Rightarrow>
               Inr ([CHR 0x0D] @ ''['' @ progress_bar done @ ''] '' @ str_int percent
                    @ ''% ('' @ str_int downloaded @ ''/'' @ str_int total_size
                    @ '' bytes)'')))"

text \<open>Lines 45-53: the loop over the chunks.\<close>

fun write_chunks ::
  "path \<Rightarrow> bool \<Rightarrow> int \<Rightarrow> bytes list \<Rightarrow> int \<Rightarrow> world \<Rightarrow> (error + int) \<times> world" where
  "write_chunks f show_progress total_size [] downloaded w = (Inr downloaded, w)"
| "write_chunks f show_progress total_size (chunk # rest) downloaded w =
     (let downloaded' = downloaded + int (length chunk);
          w1 = file_write f chunk w
      in if show_progress then
           (case progress_line downloaded' total_size of
              Inl e \<Rightarrow> (Inl e, w1)
            | Inr line \<Rightarrow>
                write_chunks f show_progress total_size rest downloaded' (emit (Print line) w1))
         else write_chunks f show_progress total_size rest downloaded' w1)"

text \<open>Lines 32-59: the body of the \<^verbatim>\<open>try\<close>.\<close>

definition download_body ::
  "env \<Rightarrow> string \<Rightarrow> string \<Rightarrow> bool \<Rightarrow> world \<Rightarrow> (error + string) \<times> world" where
  "download_body E url filename show_progress w =
     (let w1 = emit (HttpGet url) w in
      case requests_get E url of
        Inl e \<Rightarrow> (Inl e, w1)
      | Inr response \<Rightarrow>
      (case raise_for_status response of
        Inl e \<Rightarrow> (Inl e, w1)
      | Inr _ \<Rightarrow>
      (case total_size_of response of
        Inl e \<Rightarrow> (Inl e, w1)
      | Inr total_size \<Rightarrow>
      (case open_wb E filename w1 of
        (Inl e, w2) \<Rightarrow> (Inl e, w2)
      | (Inr _, w2) \<Rightarrow>
          if total_size = 0 \<or> \<not> show_progress then
            (case response_content response of
               Inl e \<Rightarrow> (Inl e, w2)
             | Inr content \<Rightarrow>
                 (Inr filename,
                  println (''Downloaded '' @ filename) (file_write filename content w2)))
          else
            (case write_chunks filename show_progress total_size (body response) 0 w2 of
               (Inl e, w3) \<Rightarrow> (Inl e, w3)
             | (Inr downloaded, w3) \<Rightarrow>
                 (case body_error response of
                    Some e \<Rightarrow> (Inl e, w3)
                  | None \<Rightarrow>
                      (Inr filename,
                       println (''Download complete: '' @ filename)
                         (if show_progress then println [] w3 else w3))))))))"

definition download_file ::
  "env \<Rightarrow> string \<Rightarrow> string option \<Rightarrow> bool \<Rightarrow> world \<Rightarrow> (error + string) \<times> world" where
  "download_file E url filename show_progress w =
     (case (case filename of None \<Rightarrow> derive_filename url | Some f \<Rightarrow> Inr f) of
        Inl e \<Rightarrow> (Inl e, w)
      | Inr filename' \<Rightarrow>
          (case download_body E url filename' show_progress
                  (println (''Downloading '' @ filename' @ '' from '' @ url @ ''...'') w) of
             (Inl e, w') \<Rightarrow>
               if is_RequestException e
               then (Inl e, emit (PrintExc ''Error downloading file: '' e) w')
               else (Inl e, w')
           | (Inr f, w') \<Rightarrow> (Inr f, w')))"

subsection \<open>\<^verbatim>\<open>unzip_file\<close>\<close>

text \<open>\<^verbatim>\<open>zipfile.ZipFile(zip_path, 'r')\<close>: opens the file and reads its directory.\<close>

definition zip_open :: "env \<Rightarrow> path \<Rightarrow> world \<Rightarrow> (error + member list) \<times> world" where
  "zip_open E p w =
     (let w1 = emit (ZipOpen p) w in
      case fs w p of
        None \<Rightarrow> (Inl (OSError ENOENT p), w1)
      | Some Dir \<Rightarrow> (Inl (OSError EISDIR p), w1)
      | Some (File b) \<Rightarrow>
          (case os_denies E Reading (fs w) p of
             Some n \<Rightarrow> (Inl (OSError n p), w1)
           | None \<Rightarrow>
               (case zip_parse E b of
                  Inl e \<Rightarrow> (Inl e, w1)
                | Inr ms \<Rightarrow> (Inr ms, w1))))"

text \<open>The library leaves a file with the given bytes at \<open>p\<close>.\<close>

definition store :: "path \<Rightarrow> bytes \<Rightarrow> world \<Rightarrow> world" where
  "store p data w = w\<lparr>fs := (fs w)(p \<mapsto> File data)\<rparr>"

text \<open>
  The extraction of one member: the library opens the member, creates the target and
  copies the data, and any of the three can fail.
\<close>

definition extract_member :: "env \<Rightarrow> member \<Rightarrow> path \<Rightarrow> world \<Rightarrow> (error + unit) \<times> world" where
  "extract_member E m extract_to w =
     (case m of
        DamagedHeader name e \<Rightarrow> (Inl e, w)
      | Member name data \<Rightarrow>
          (case write_check E (fs w) (zip_target E extract_to name) of
             Some n \<Rightarrow> (Inl (OSError n (zip_target E extract_to name)), w)
           | None \<Rightarrow> (Inr (), store (zip_target E extract_to name) data w))
      | DamagedData name data e \<Rightarrow>
          (case write_check E (fs w) (zip_target E extract_to name) of
             Some n \<Rightarrow> (Inl (OSError n (zip_target E extract_to name)), w)
           | None \<Rightarrow> (Inl e, store (zip_target E extract_to name) data w)))"

text \<open>\<^verbatim>\<open>zip_ref.extractall(extract_to)\<close>: the members in order, stopping at the first failure.\<close>

fun extractall :: "env \<Rightarrow> member list \<Rightarrow> path \<Rightarrow> world \<Rightarrow> (error + unit) \<times> world" where
  "extractall E [] extract_to w = (Inr (), w)"
| "extractall E (m # ms) extract_to w =
     (case extract_member E m extract_to w of
        (Inl e, w1) \<Rightarrow> (Inl e, w1)
      | (Inr _, w1) \<Rightarrow> extractall E ms extract_to w1)"

text \<open>Lines 87-91: the body of the \<^verbatim>\<open>try\<close>.\<close>

definition unzip_body :: "env \<Rightarrow> path \<Rightarrow> path \<Rightarrow> world \<Rightarrow> (error + path) \<times> world" where
  "unzip_body E zip_path extract_to w =
     (case zip_open E zip_path w of
        (Inl e, w1) \<Rightarrow> (Inl e, w1)
      | (Inr ms, w1) \<Rightarrow>
          (case extractall E ms extract_to w1 of
             (Inl e, w2) \<Rightarrow> (Inl e, w2)
           | (Inr _, w2) \<Rightarrow>
               (Inr extract_to, println (''Extraction complete to: '' @ extract_to) w2)))"

definition unzip_file :: "env \<Rightarrow> path \<Rightarrow> path \<Rightarrow> world \<Rightarrow> (error + path) \<times> world" where
  "unzip_file E zip_path extract_to w =
     (case os_path_exists zip_path w of
        (False, w1) \<Rightarrow> (Inl (FileNotFoundError (''Zip file not found: '' @ zip_path)), w1)
      | (True, w1) \<Rightarrow>
          (case unzip_body E zip_path extract_to
                  (println (''Extracting '' @ zip_path @ ''...'') w1) of
             (Inl e, w2) \<Rightarrow>
               if is_BadZipFile e
               then (Inl e, emit (PrintExc ''Error: Invalid zip file: '' e) w2)
               else (Inl e, w2)
           | (Inr d, w2) \<Rightarrow> (Inr d, w2)))"

subsection \<open>\<^verbatim>\<open>extract_from_location\<close>\<close>

text \<open>Lines 118-120 and 154-156: the optional cleanup.\<close>

definition cleanup_step :: "env \<Rightarrow> bool \<Rightarrow> path \<Rightarrow> world \<Rightarrow> (error + unit) \<times> world" where
  "cleanup_step E cleanup p w =
     (if cleanup then
        (case os_remove E p w of
           (Inl e, w1) \<Rightarrow> (Inl e, w1)
         | (Inr _, w1) \<Rightarrow> (Inr (), println (''Cleaned up: '' @ p) w1))
      else (Inr (), w))"

definition extract_from_location ::
  "env \<Rightarrow> path \<Rightarrow> path \<Rightarrow> bool \<Rightarrow> world \<Rightarrow> (error + path) \<times> world" where
  "extract_from_location E zip_path extract_to cleanup w =
     (case (case unzip_file E zip_path extract_to w of
              (Inl e, w1) \<Rightarrow> (Inl e, w1)
            | (Inr extract_dir, w1) \<Rightarrow>
                (case cleanup_step E cleanup zip_path w1 of
                   (Inl e, w2) \<Rightarrow> (Inl e, w2)
                 | (Inr _, w2) \<Rightarrow> (Inr extract_dir, w2))) of
        (Inl e, w') \<Rightarrow> (Inl e, emit (PrintExc ''Error in extract_from_location: '' e) w')
      | (Inr d, w') \<Rightarrow> (Inr d, w'))"

subsection \<open>\<^verbatim>\<open>download_and_extract\<close>\<close>

definition download_and_extract ::
  "env \<Rightarrow> string \<Rightarrow> string option \<Rightarrow> path \<Rightarrow> bool \<Rightarrow> bool \<Rightarrow> world
     \<Rightarrow> (error + string \<times> path) \<times> world" where
  "download_and_extract E url filename extract_to cleanup show_progress w =
     (case (case download_file E url filename show_progress w of
              (Inl e, w1) \<Rightarrow> (Inl e, w1)
            | (Inr downloaded_file, w1) \<Rightarrow>
                (case unzip_file E downloaded_file extract_to w1 of
                   (Inl e, w2) \<Rightarrow> (Inl e, w2)
                 | (Inr extract_dir, w2) \<Rightarrow>
                     (case cleanup_step E cleanup downloaded_file w2 of
                        (Inl e, w3) \<Rightarrow> (Inl e, w3)
                      | (Inr _, w3) \<Rightarrow> (Inr (downloaded_file, extract_dir), w3)))) of
        (Inl e, w') \<Rightarrow> (Inl e, emit (PrintExc ''Error in download_and_extract: '' e) w')
      | (Inr r, w') \<Rightarrow> (Inr r, w'))"

text \<open>
  The three calls that mark the stages of a run: the HTTP request, the opening of the
  archive and the deletion of a file.
\<close>

fun is_stage_event :: "event \<Rightarrow> bool" where
  "is_stage_event (HttpGet _) = True"
| "is_stage_event (ZipOpen _) = True"
| "is_stage_event (Remove _) = True"
| "is_stage_event _ = False"

text \<open>
  The name under which \<^verbatim>\<open>download_file\<close> saves the body: the one given, or the one
  derived from the URL.
\<close>

definition local_filename :: "string \<Rightarrow> string option \<Rightarrow> string" where
  "local_filename url filename =
     (case filename of None \<Rightarrow> last (split_on CHR ''/'' url) | Some f \<Rightarrow> f)"

text \<open>
  A later world extends an earlier one when its trace continues the earlier trace;
  \<open>new_events\<close> is the continuation and \<open>stages\<close> the stage-marking calls in it.
\<close>

definition extends :: "world \<Rightarrow> world \<Rightarrow> bool" where
  "extends w w' = (take (length (trace w)) (trace w') = trace w)"

definition new_events :: "world \<Rightarrow> world \<Rightarrow> event list" where
  "new_events w w' = drop (length (trace w)) (trace w')"

definition stages :: "world \<Rightarrow> world \<Rightarrow> event list" where
  "stages w w' = filter is_stage_event (new_events w w')"

text \<open>
  A small concrete world, used to run the functions on explicit inputs: URLs with
  different answers, files on disk that the zip library reads in different ways, one file
  protected against deletion and one path at which no file can be created.
\<close>

definition example_env :: env where
  "example_env =
     \<lparr>requests_get = (\<lambda>u.
          if u = ''h/data.zip'' then
            Inr \<lparr>status_code = 200, content_length = Value 4,
                 body = [''PK'', ''ok''], body_error = None\<rparr>
          else if u = ''h/gone.zip'' then
            Inr \<lparr>status_code = 404, content_length = Absent, body = [], body_error = None\<rparr>
          else if u = ''h/cut.zip'' then
            Inr \<lparr>status_code = 200, content_length = Absent,
                 body = [''PK''], body_error = Some ConnectionError\<rparr>
          else if u = ''h/same.zip'' then
            Inr \<lparr>status_code = 304, content_length = Absent, body = [], body_error = None\<rparr>
          else if u = ''h/kept.zip'' then
            Inr \<lparr>status_code = 200, content_length = Absent,
                 body = [''PKok''], body_error = None\<rparr>
          else Inl ConnectionError),
      zip_parse = (\<lambda>b.
          if b = ''PKok'' then Inr [Member ''a.txt'' ''A'', Member ''sub/b.txt'' ''B'']
          else if b = ''PKbad'' then
            Inr [Member ''a.txt'' ''A'', DamagedData ''c.txt'' [] BadZipFile]
          else if b = ''PKodd'' then Inl UnicodeDecodeError
          else Inl BadZipFile),
      zip_target = (\<lambda>d n. d @ ''/'' @ n),
      os_denies = (\<lambda>a files p.
          if a = Deleting \<and> p = ''kept.zip'' then Some EACCES
          else if a = Writing \<and> p = ''nodir/a.zip'' then Some ENOENT
          else None)\<rparr>"

definition example_world :: world where
  "example_world =
     \<lparr>fs = [''data.zip'' \<mapsto> File ''PKok'', ''junk.zip'' \<mapsto> File ''hello'',
            ''bad.zip'' \<mapsto> File ''PKbad'', ''odd.zip'' \<mapsto> File ''PKodd''],
      trace = []\<rparr>"

section \<open>Filename derivation\<close>

lemma split_on_nonempty: "split_on c s \<noteq> []"
  by (induction s) (auto split: list.splits)

lemma split_on_no_sep: "c \<notin> set s \<Longrightarrow> split_on c s = [s]"
  by (induction s) auto

lemma split_on_single: "split_on c s = [y] \<Longrightarrow> c \<notin> set s"
  by (induction s arbitrary: y) (auto simp: split_on_nonempty split: if_splits list.splits)

lemma last_split_on_Cons:
  "c \<in> set xs \<Longrightarrow> last (split_on c (x # xs)) = last (split_on c xs)"
  using split_on_single[of c xs]
  by (cases "split_on c xs") (auto simp: split_on_nonempty)

lemma last_split_on_append:
  "c \<notin> set t \<Longrightarrow> last (split_on c (pre @ c # t)) = t"
  by (induction pre) (simp_all add: split_on_no_sep last_split_on_Cons del: split_on.simps(2), simp add: split_on_no_sep)

lemma last_split_char: "c \<notin> set (last (split_on c s))"
  by (induction s) (auto simp: split_on_nonempty split: list.splits)

lemma split_decomp:
  "c \<in> set s \<Longrightarrow> \<exists>pre. s = pre @ c # last (split_on c s)"
proof (induction s)
  case Nil
  then show ?case by simp
next
  case (Cons x xs)
  show ?case
  proof (cases "c \<in> set xs")
    case True
    with Cons.IH obtain pre where "xs = pre @ c # last (split_on c xs)" by blast
    then have "x # xs = (x # pre) @ c # last (split_on c xs)" by simp
    then show ?thesis unfolding last_split_on_Cons[OF True] by blast
  next
    case False
    with Cons.prems have "x = c" by simp
    then show ?thesis using False by (simp add: split_on_no_sep)
  qed
qed

lemma derive_filename_last: "derive_filename url = Inr (last (split_on CHR ''/'' url))"
  using split_on_nonempty[of "CHR ''/''" url]
  by (simp add: derive_filename_def index_last_def split: list.splits)

lemma download_file_derived:
  "download_file E url None sp w =
     download_file E url (Some (last (split_on CHR ''/'' url))) sp w"
  by (simp add: download_file_def derive_filename_last)

text \<open>
  C10: when no filename is given, the derivation never fails, also outside the URLs the
  specification speaks of: a URL without any \<^verbatim>\<open>/\<close> is taken whole as the filename, and
  a URL that ends in \<^verbatim>\<open>/\<close> gives the empty filename. \<^verbatim>\<open>download_file\<close> then goes on
  with exactly that name.
\<close>

theorem derive_filename_outside_domain:
  "(\<forall>e. derive_filename url \<noteq> Inl e)
   \<and> (CHR ''/'' \<notin> set url \<longrightarrow>
        derive_filename url = Inr url
        \<and> download_file E url None sp w = download_file E url (Some url) sp w)
   \<and> derive_filename (url @ ''/'') = Inr []
   \<and> download_file E (url @ ''/'') None sp w = download_file E (url @ ''/'') (Some []) sp w"
proof -
  have "last (split_on CHR ''/'' (url @ ''/'')) = []"
    using last_split_on_append[of "CHR ''/''" "[]" url] by simp
  then show ?thesis
    by (simp add: derive_filename_last download_file_derived split_on_no_sep)
qed

theorem derive_filename_outside_domain_witness:
  "derive_filename ''data.zip'' = Inr ''data.zip'' \<and> derive_filename ''data/'' = Inr []"
  using derive_filename_outside_domain[of "''data.zip''"]
        derive_filename_outside_domain[of "''data''"]
  by simp

section \<open>What each call does to the world\<close>

lemma emit_fields [simp]:
  "fs (emit ev w) = fs w" "trace (emit ev w) = trace w @ [ev]"
  by (simp_all add: emit_def)

lemma println_fields [simp]:
  "fs (println s w) = fs w"
  "trace (println s w) = trace w @ [Print (s @ [CHR 0x0A])]"
  by (simp_all add: println_def)

lemma file_write_fields [simp]:
  "fs (file_write p d w) = (fs w)(p \<mapsto> File (file_bytes (fs w p) @ d))"
  "trace (file_write p d w) = trace w @ [Write p d]"
  by (simp_all add: file_write_def)

lemma store_fields [simp]:
  "fs (store p d w) = (fs w)(p \<mapsto> File d)" "trace (store p d w) = trace w"
  by (simp_all add: store_def)

lemma open_wb_Inr:
  "open_wb E p w = (Inr u, w') \<Longrightarrow>
     fs w' = (fs w)(p \<mapsto> File []) \<and> trace w' = trace w @ [OpenWrite p]
     \<and> write_check E (fs w) p = None"
  by (auto simp: open_wb_def Let_def split: option.splits)

lemma open_wb_Inl:
  "open_wb E p w = (Inl e, w') \<Longrightarrow>
     w' = emit (OpenWrite p) w \<and> (\<exists>n. e = OSError n p \<and> write_check E (fs w) p = Some n)"
  by (auto simp: open_wb_def Let_def split: option.splits)

lemma os_remove_Inr:
  "os_remove E p w = (Inr u, w') \<Longrightarrow>
     fs w' = (fs w)(p := None) \<and> trace w' = trace w @ [Remove p]"
  by (auto simp: os_remove_def Let_def split: option.splits node.splits)

lemma os_remove_Inl:
  "os_remove E p w = (Inl e, w') \<Longrightarrow> w' = emit (Remove p) w \<and> (\<exists>n. e = OSError n p)"
  by (auto simp: os_remove_def Let_def split: option.splits node.splits)

lemma py_truediv_error:
  "py_truediv a b = Inl e \<Longrightarrow> e = ZeroDivisionError \<or> e = OverflowError"
  by (simp add: py_truediv_def Let_def split: if_splits)

lemma progress_line_error:
  "progress_line d T = Inl e \<Longrightarrow> e = ZeroDivisionError \<or> e = OverflowError"
  unfolding progress_line_def progress_done_def progress_percent_def
  by (auto split: sum.splits dest: py_truediv_error)

lemma write_chunks_effect:
  "write_chunks f sp T chunks dl w = (r, w') \<Longrightarrow> fs w f = Some (File b) \<Longrightarrow>
     \<exists>k evs. k \<le> length chunks
        \<and> fs w' = (fs w)(f \<mapsto> File (b @ concat (take k chunks)))
        \<and> trace w' = trace w @ evs \<and> filter is_stage_event evs = []
        \<and> (\<forall>u. r = Inr u \<longrightarrow> k = length chunks)
        \<and> (\<forall>e. r = Inl e \<longrightarrow> e = ZeroDivisionError \<or> e = OverflowError)"
proof (induction chunks arbitrary: dl w b)
  case Nil
  then show ?case by (intro exI[of _ 0] exI[of _ "[]"]) auto
next
  case (Cons c cs)
  let ?w1 = "file_write f c w"
  have f1: "fs ?w1 f = Some (File (b @ c))" using Cons.prems(2) by simp
  show ?case
  proof (cases "sp \<and> (\<exists>e. progress_line (dl + int (length c)) T = Inl e)")
    case True
    then obtain e where e: "progress_line (dl + int (length c)) T = Inl e" by blast
    with True Cons.prems(1) have "r = Inl e" "w' = ?w1" by (auto simp: Let_def)
    then show ?thesis using Cons.prems(2) progress_line_error[OF e]
      by (intro exI[of _ 1] exI[of _ "[Write f c]"]) auto
  next
    case False
    then obtain w2 ev2 where
      rec: "write_chunks f sp T cs (dl + int (length c)) w2 = (r, w')"
      and w2: "fs w2 = fs ?w1" "trace w2 = trace w @ ev2" "filter is_stage_event ev2 = []"
      using Cons.prems(1)
      by (cases sp; cases "progress_line (dl + int (length c)) T") (auto simp: Let_def)
    from w2(1) f1 have "fs w2 f = Some (File (b @ c))" by simp
    from Cons.IH[OF rec this] obtain k evs where
      k: "k \<le> length cs" "fs w' = (fs w2)(f \<mapsto> File ((b @ c) @ concat (take k cs)))"
        "trace w' = trace w2 @ evs" "filter is_stage_event evs = []"
        "\<forall>u. r = Inr u \<longrightarrow> k = length cs"
        "\<forall>e. r = Inl e \<longrightarrow> e = ZeroDivisionError \<or> e = OverflowError"
      by blast
    show ?thesis
      using k w2 Cons.prems(2)
      by (intro exI[of _ "Suc k"] exI[of _ "ev2 @ evs"]) auto
  qed
qed

lemma download_body_cases:
  assumes "download_body E url fn sp w = (res, w')"
  obtains
    (get_fail) e where "requests_get E url = Inl e" "res = Inl e" "w' = emit (HttpGet url) w"
  | (status) r where "requests_get E url = Inr r"
      "400 \<le> status_code r" "status_code r < 600"
      "res = Inl (HTTPError (status_code r))" "w' = emit (HttpGet url) w"
  | (header) r where "requests_get E url = Inr r"
      "\<not> (400 \<le> status_code r \<and> status_code r < 600)" "content_length r = Malformed"
      "res = Inl ValueError" "w' = emit (HttpGet url) w"
  | (open_fail) r t e where "requests_get E url = Inr r"
      "\<not> (400 \<le> status_code r \<and> status_code r < 600)" "total_size_of r = Inr t"
      "open_wb E fn (emit (HttpGet url) w) = (Inl e, w')" "res = Inl e"
  | (whole_fail) r t u e where "requests_get E url = Inr r"
      "\<not> (400 \<le> status_code r \<and> status_code r < 600)" "total_size_of r = Inr t"
      "open_wb E fn (emit (HttpGet url) w) = (Inr u, w')" "t = 0 \<or> \<not> sp"
      "body_error r = Some e" "res = Inl e"
  | (whole_ok) r t u w2 where "requests_get E url = Inr r"
      "\<not> (400 \<le> status_code r \<and> status_code r < 600)" "total_size_of r = Inr t"
      "open_wb E fn (emit (HttpGet url) w) = (Inr u, w2)" "t = 0 \<or> \<not> sp"
      "body_error r = None" "res = Inr fn"
      "w' = println (''Downloaded '' @ fn) (file_write fn (concat (body r)) w2)"
  | (chunk_fail) r t u w2 e where "requests_get E url = Inr r"
      "\<not> (400 \<le> status_code r \<and> status_code r < 600)" "total_size_of r = Inr t"
      "open_wb E fn (emit (HttpGet url) w) = (Inr u, w2)" "t \<noteq> 0" "sp"
      "write_chunks fn sp t (body r) 0 w2 = (Inl e, w')" "res = Inl e"
  | (stream_fail) r t u w2 d e where "requests_get E url = Inr r"
      "\<not> (400 \<le> status_code r \<and> status_code r < 600)" "total_size_of r = Inr t"
      "open_wb E fn (emit (HttpGet url) w) = (Inr u, w2)" "t \<noteq> 0" "sp"
      "write_chunks fn sp t (body r) 0 w2 = (Inr d, w')" "body_error r = Some e" "res = Inl e"
  | (chunk_ok) r t u w2 d w3 where "requests_get E url = Inr r"
      "\<not> (400 \<le> status_code r \<and> status_code r < 600)" "total_size_of r = Inr t"
      "open_wb E fn (emit (HttpGet url) w) = (Inr u, w2)" "t \<noteq> 0" "sp"
      "write_chunks fn sp t (body r) 0 w2 = (Inr d, w3)" "body_error r = None" "res = Inr fn"
      "w' = println (''Download complete: '' @ fn) (println [] w3)"
proof (cases "requests_get E url")
  case (Inl e)
  with assms get_fail show ?thesis by (simp add: download_body_def Let_def)
next
  case r: (Inr r)
  show ?thesis
  proof (cases "400 \<le> status_code r \<and> status_code r < 600")
    case True
    with assms r status show ?thesis
      by (simp add: download_body_def Let_def raise_for_status_def)
  next
    case ok: False
    then have rs: "raise_for_status r = Inr ()" by (simp add: raise_for_status_def)
    show ?thesis
    proof (cases "total_size_of r")
      case (Inl e)
      then have "content_length r = Malformed" "e = ValueError"
        by (auto simp: total_size_of_def split: header.splits)
      with assms r ok rs Inl header show ?thesis
        by (simp add: download_body_def Let_def)
    next
      case t: (Inr t)
      obtain ro w2 where o: "open_wb E fn (emit (HttpGet url) w) = (ro, w2)" by force
      show ?thesis
      proof (cases ro)
        case (Inl e)
        with assms r ok rs t o open_fail show ?thesis
          by (simp add: download_body_def Let_def)
      next
        case u: (Inr u)
        from o u have o': "open_wb E fn (emit (HttpGet url) w) = (Inr u, w2)" by simp
        show ?thesis
        proof (cases "t = 0 \<or> \<not> sp")
          case whole: True
          show ?thesis
          proof (cases "body_error r")
            case None
            with assms r rs t o' whole have "res = Inr fn"
              "w' = println (''Downloaded '' @ fn) (file_write fn (concat (body r)) w2)"
              by (simp_all add: download_body_def Let_def response_content_def)
            then show ?thesis by (rule whole_ok[OF r ok t o' whole None])
          next
            case (Some e)
            with assms r rs t o' whole have "res = Inl e" "w' = w2"
              by (simp_all add: download_body_def Let_def response_content_def)
            with o' have "open_wb E fn (emit (HttpGet url) w) = (Inr u, w')" by simp
            then show ?thesis by (rule whole_fail[OF r ok t _ whole Some \<open>res = Inl e\<close>])
          qed
        next
          case False
          then have nz: "t \<noteq> 0" and sp: "sp" by simp_all
          obtain rc w3 where c: "write_chunks fn sp t (body r) 0 w2 = (rc, w3)" by force
          have eq: "(res, w') =
              (case rc of
                 Inl e \<Rightarrow> (Inl e, w3)
               | Inr d \<Rightarrow>
                   (case body_error r of
                      Some e \<Rightarrow> (Inl e, w3)
                    | None \<Rightarrow>
                        (Inr fn, println (''Download complete: '' @ fn) (println [] w3))))"
            using assms r rs t o' nz sp c
            by (simp add: download_body_def Let_def split: sum.splits option.splits)
          show ?thesis
          proof (cases rc)
            case (Inl e)
            with eq have "res = Inl e" "w' = w3" by simp_all
            with c Inl have "write_chunks fn sp t (body r) 0 w2 = (Inl e, w')" by simp
            then show ?thesis by (rule chunk_fail[OF r ok t o' nz sp _ \<open>res = Inl e\<close>])
          next
            case (Inr d)
            show ?thesis
            proof (cases "body_error r")
              case None
              with eq Inr have "res = Inr fn"
                "w' = println (''Download complete: '' @ fn) (println [] w3)" by simp_all
              moreover from c Inr have "write_chunks fn sp t (body r) 0 w2 = (Inr d, w3)"
                by simp
              ultimately show ?thesis
                using chunk_ok[OF r ok t o' nz sp _ None] by blast
            next
              case (Some e)
              with eq Inr have "res = Inl e" "w' = w3" by simp_all
              with c Inr have "write_chunks fn sp t (body r) 0 w2 = (Inr d, w')" by simp
              then show ?thesis
                by (rule stream_fail[OF r ok t o' nz sp _ Some \<open>res = Inl e\<close>])
            qed
          qed
        qed
      qed
    qed
  qed
qed

lemma extendsI: "trace w' = trace w @ evs \<Longrightarrow> extends w w'"
  by (simp add: extends_def)

lemma new_eventsI: "trace w' = trace w @ evs \<Longrightarrow> new_events w w' = evs"
  by (simp add: new_events_def)

lemma extends_trace: "extends w w' \<Longrightarrow> trace w' = trace w @ new_events w w'"
  unfolding extends_def new_events_def by (metis append_take_drop_id)

lemma extends_refl [simp]: "extends w w" "new_events w w = []" "stages w w = []"
  by (simp_all add: extends_def new_events_def stages_def)

lemma extends_trans:
  assumes "extends w w1" "extends w1 w2"
  shows "extends w w2" "new_events w w2 = new_events w w1 @ new_events w1 w2"
    "stages w w2 = stages w w1 @ stages w1 w2"
proof -
  from assms have t: "trace w2 = trace w @ new_events w w1 @ new_events w1 w2"
    using extends_trace by fastforce
  show "extends w w2" by (rule extendsI[OF t])
  show n: "new_events w w2 = new_events w w1 @ new_events w1 w2" by (rule new_eventsI[OF t])
  show "stages w w2 = stages w w1 @ stages w1 w2" by (simp add: stages_def n)
qed

lemma extends_emit [simp]:
  "extends w (emit ev w)" "new_events w (emit ev w) = [ev]"
  "extends w (println s w)" "new_events w (println s w) = [Print (s @ [CHR 0x0A])]"
  "extends w (file_write p d w)" "new_events w (file_write p d w) = [Write p d]"
  by (simp_all add: extends_def new_events_def)

lemma download_file_local:
  "download_file E url filename sp w =
     download_file E url (Some (local_filename url filename)) sp w"
  by (cases filename) (simp_all add: local_filename_def download_file_derived)

lemma download_file_cases:
  assumes "download_file E url filename sp w = (res, w')"
  obtains
    (fail) e w1 where
      "download_body E url (local_filename url filename) sp
         (println (''Downloading '' @ local_filename url filename @ '' from '' @ url @ ''...'') w)
       = (Inl e, w1)"
      "res = Inl e"
      "w' = (if is_RequestException e
             then emit (PrintExc ''Error downloading file: '' e) w1 else w1)"
  | (ok) f where
      "download_body E url (local_filename url filename) sp
         (println (''Downloading '' @ local_filename url filename @ '' from '' @ url @ ''...'') w)
       = (Inr f, w')"
      "res = Inr f"
proof -
  let ?fn = "local_filename url filename"
  let ?w0 = "println (''Downloading '' @ ?fn @ '' from '' @ url @ ''...'') w"
  obtain rb wb where b: "download_body E url ?fn sp ?w0 = (rb, wb)" by force
  from assms have a: "download_file E url (Some ?fn) sp w = (res, w')"
    by (simp add: download_file_local[symmetric])
  show ?thesis
  proof (cases rb)
    case (Inl e)
    with a b have "res = Inl e"
      "w' = (if is_RequestException e
             then emit (PrintExc ''Error downloading file: '' e) wb else wb)"
      by (auto simp: download_file_def split: if_splits)
    with b Inl fail show ?thesis by blast
  next
    case (Inr f)
    with a b have "res = Inr f" "w' = wb" by (simp_all add: download_file_def)
    with b Inr ok show ?thesis by blast
  qed
qed

text \<open>Trace and file system after the body of download_file.\<close>

lemma download_body_effect:
  assumes "download_body E url fn sp w = (res, w')"
  shows "extends w w'" "stages w w' = [HttpGet url]"
    "fs w' = fs w \<or> (\<exists>r k. requests_get E url = Inr r \<and> k \<le> length (body r)
        \<and> fs w' = (fs w)(fn \<mapsto> File (concat (take k (body r)))))"
    "\<forall>f. res = Inr f \<longrightarrow> f = fn \<and> OpenWrite fn \<in> set (new_events w w')
        \<and> (\<exists>r. requests_get E url = Inr r \<and> fs w' = (fs w)(fn \<mapsto> File (concat (body r))))"
proof -
  let ?w1 = "emit (HttpGet url) w"
  have chunks: "\<exists>k evs. k \<le> length (body r)
        \<and> fs w3 = (fs w)(fn \<mapsto> File (concat (take k (body r))))
        \<and> trace w3 = trace w @ HttpGet url # OpenWrite fn # evs \<and> filter is_stage_event evs = []
        \<and> (\<forall>u. rc = Inr u \<longrightarrow> k = length (body r))"
    if o: "open_wb E fn ?w1 = (Inr u, w2)" and c: "write_chunks fn sp t (body r) 0 w2 = (rc, w3)"
    for u w2 t r rc w3
  proof -
    from open_wb_Inr[OF o] have w2: "fs w2 = (fs w)(fn \<mapsto> File [])"
      "trace w2 = trace w @ [HttpGet url, OpenWrite fn]" by simp_all
    then have "fs w2 fn = Some (File [])" by simp
    from write_chunks_effect[OF c this] obtain k evs where
      "k \<le> length (body r)" "fs w3 = (fs w2)(fn \<mapsto> File ([] @ concat (take k (body r))))"
      "trace w3 = trace w2 @ evs" "filter is_stage_event evs = []"
      "\<forall>u. rc = Inr u \<longrightarrow> k = length (body r)" by blast
    with w2 show ?thesis by (intro exI[of _ k] exI[of _ evs]) simp
  qed
  have all: "extends w w' \<and> stages w w' = [HttpGet url]
    \<and> (fs w' = fs w \<or> (\<exists>r k. requests_get E url = Inr r \<and> k \<le> length (body r)
        \<and> fs w' = (fs w)(fn \<mapsto> File (concat (take k (body r))))))
    \<and> (\<forall>f. res = Inr f \<longrightarrow> f = fn \<and> OpenWrite fn \<in> set (new_events w w')
        \<and> (\<exists>r. requests_get E url = Inr r \<and> fs w' = (fs w)(fn \<mapsto> File (concat (body r)))))"
    using assms
  proof (cases rule: download_body_cases)
    case (get_fail e)
    then show ?thesis by (simp add: stages_def)
  next
    case (status r)
    then show ?thesis by (simp add: stages_def)
  next
    case (header r)
    then show ?thesis by (simp add: stages_def)
  next
    case (open_fail r t e)
    from open_wb_Inl[OF open_fail(4)] open_fail(5) show ?thesis
      by (simp add: stages_def extends_def new_events_def)
  next
    case (whole_fail r t u e)
    from open_wb_Inr[OF whole_fail(4)] have
      "fs w' = (fs w)(fn \<mapsto> File (concat (take 0 (body r))))"
      "trace w' = trace w @ [HttpGet url, OpenWrite fn]" by simp_all
    with whole_fail(1,7) show ?thesis
      by (auto simp: stages_def extends_def new_events_def)
  next
    case (whole_ok r t u w2)
    from open_wb_Inr[OF whole_ok(4)] whole_ok(8) have
      "fs w' = (fs w)(fn \<mapsto> File (concat (take (length (body r)) (body r))))"
      "trace w' = trace w @ [HttpGet url, OpenWrite fn, Write fn (concat (body r)),
          Print ((''Downloaded '' @ fn) @ [CHR 0x0A])]" by simp_all
    with whole_ok(1,7) show ?thesis
      by (auto simp: stages_def extends_def new_events_def)
  next
    case (chunk_fail r t u w2 e)
    from chunks[OF chunk_fail(4,7)] chunk_fail(1,8) show ?thesis
      by (auto simp: stages_def extends_def new_events_def)
  next
    case (stream_fail r t u w2 d e)
    from chunks[OF stream_fail(4,7)] stream_fail(1,9) show ?thesis
      by (auto simp: stages_def extends_def new_events_def)
  next
    case (chunk_ok r t u w2 d w3)
    from chunks[OF chunk_ok(4,7)] obtain evs where
      "fs w3 = (fs w)(fn \<mapsto> File (concat (body r)))"
      "trace w3 = trace w @ HttpGet url # OpenWrite fn # evs" "filter is_stage_event evs = []"
      by auto
    with chunk_ok(1,9,10) show ?thesis
      by (auto simp: stages_def extends_def new_events_def)
  qed
  from all show "extends w w'" "stages w w' = [HttpGet url]"
    "fs w' = fs w \<or> (\<exists>r k. requests_get E url = Inr r \<and> k \<le> length (body r)
        \<and> fs w' = (fs w)(fn \<mapsto> File (concat (take k (body r)))))"
    "\<forall>f. res = Inr f \<longrightarrow> f = fn \<and> OpenWrite fn \<in> set (new_events w w')
        \<and> (\<exists>r. requests_get E url = Inr r \<and> fs w' = (fs w)(fn \<mapsto> File (concat (body r))))"
    by blast+
qed

lemma stages_emit [simp]:
  "stages w (emit ev w) = (if is_stage_event ev then [ev] else [])"
  "stages w (println s w) = []"
  by (simp_all add: stages_def)

lemma download_file_effect:
  assumes "download_file E url filename sp w = (res, w')"
  shows "extends w w'" "stages w w' = [HttpGet url]"
    "fs w' = fs w \<or> (\<exists>r k. requests_get E url = Inr r \<and> k \<le> length (body r)
        \<and> fs w' = (fs w)(local_filename url filename \<mapsto> File (concat (take k (body r)))))"
    "\<forall>f. res = Inr f \<longrightarrow> f = local_filename url filename
        \<and> OpenWrite f \<in> set (new_events w w')
        \<and> (\<exists>r. requests_get E url = Inr r \<and> fs w' = (fs w)(f \<mapsto> File (concat (body r))))"
proof -
  let ?fn = "local_filename url filename"
  let ?w0 = "println (''Downloading '' @ ?fn @ '' from '' @ url @ ''...'') w"
  have all: "extends w w' \<and> stages w w' = [HttpGet url]
    \<and> (fs w' = fs w \<or> (\<exists>r k. requests_get E url = Inr r \<and> k \<le> length (body r)
        \<and> fs w' = (fs w)(?fn \<mapsto> File (concat (take k (body r))))))
    \<and> (\<forall>f. res = Inr f \<longrightarrow> f = ?fn \<and> OpenWrite f \<in> set (new_events w w')
        \<and> (\<exists>r. requests_get E url = Inr r \<and> fs w' = (fs w)(f \<mapsto> File (concat (body r)))))"
    using assms
  proof (cases rule: download_file_cases)
    case (fail e w1)
    note b = download_body_effect[OF fail(1)]
    have e1: "extends w w1" "stages w w1 = [HttpGet url]"
      using extends_trans[of w ?w0 w1] b(1,2) by simp_all
    have e2: "extends w1 w'" "stages w1 w' = []" using fail(3) by auto
    from extends_trans[OF e1(1) e2(1)] e1 e2 have "extends w w'" "stages w w' = [HttpGet url]"
      by simp_all
    moreover have "fs w' = fs w1" using fail(3) by simp
    ultimately show ?thesis using b(3) fail(2) by simp
  next
    case (ok f)
    note b = download_body_effect[OF ok(1)]
    have e1: "extends w w'" "stages w w' = [HttpGet url]"
      "new_events w w' = new_events w ?w0 @ new_events ?w0 w'"
      using extends_trans[of w ?w0 w'] b(1,2) by simp_all
    with b(3,4) ok(2) show ?thesis by auto
  qed
  from all show "extends w w'" "stages w w' = [HttpGet url]"
    "fs w' = fs w \<or> (\<exists>r k. requests_get E url = Inr r \<and> k \<le> length (body r)
        \<and> fs w' = (fs w)(local_filename url filename \<mapsto> File (concat (take k (body r)))))"
    "\<forall>f. res = Inr f \<longrightarrow> f = local_filename url filename
        \<and> OpenWrite f \<in> set (new_events w w')
        \<and> (\<exists>r. requests_get E url = Inr r \<and> fs w' = (fs w)(f \<mapsto> File (concat (body r))))"
    by blast+
qed

lemma download_file_keeps:
  assumes "download_file E url filename sp w = (res, w')"
  shows "dom (fs w) \<subseteq> dom (fs w')"
  using download_file_effect(3)[OF assms] by auto

subsection \<open>Extraction\<close>

lemma same_trace:
  "trace w' = trace w \<Longrightarrow> extends w w' \<and> new_events w w' = [] \<and> stages w w' = []"
  by (simp add: extends_def new_events_def stages_def)

lemma extract_member_effect:
  assumes "extract_member E m et w = (r, w')"
  shows "trace w' = trace w \<and> dom (fs w) \<subseteq> dom (fs w')"
  using assms
  by (cases m) (auto simp: extract_member_def split: option.splits)

lemma extractall_trace:
  "extractall E ms et w = (r, w') \<Longrightarrow> trace w' = trace w \<and> dom (fs w) \<subseteq> dom (fs w')"
proof (induction ms arbitrary: w)
  case Nil
  then show ?case by simp
next
  case (Cons m ms)
  obtain rm w1 where m: "extract_member E m et w = (rm, w1)" by force
  note e1 = extract_member_effect[OF m]
  show ?case
  proof (cases rm)
    case (Inl e)
    with Cons.prems m e1 show ?thesis by simp
  next
    case (Inr u)
    with Cons.prems m have "extractall E ms et w1 = (r, w')" by simp
    from Cons.IH[OF this] have i: "trace w' = trace w1" "dom (fs w1) \<subseteq> dom (fs w')"
      by simp_all
    from e1 have j: "trace w1 = trace w" "dom (fs w) \<subseteq> dom (fs w1)" by simp_all
    from j(2) i(2) have "dom (fs w) \<subseteq> dom (fs w')" by (rule subset_trans)
    with i(1) j(1) show ?thesis by simp
  qed
qed

lemma extractall_effect:
  assumes "extractall E ms et w = (r, w')"
  shows "extends w w' \<and> stages w w' = [] \<and> dom (fs w) \<subseteq> dom (fs w')"
  using extractall_trace[OF assms] same_trace[of w' w] by simp

lemma extractall_append:
  "extractall E pre et w = (Inr u, w1) \<Longrightarrow>
     extractall E (pre @ ms) et w = extractall E ms et w1"
  by (induction pre arbitrary: w) (auto split: prod.splits sum.splits)

lemma zip_open_effect:
  "zip_open E p w = (r, w') \<Longrightarrow> w' = emit (ZipOpen p) w"
  by (auto simp: zip_open_def Let_def split: option.splits node.splits sum.splits)

lemma unzip_file_cases:
  assumes "unzip_file E zip_path extract_to w = (res, w')"
  obtains
    (missing) "fs w zip_path = None"
      "res = Inl (FileNotFoundError (''Zip file not found: '' @ zip_path))"
      "w' = emit (Exists zip_path) w"
  | (open_fail) e where "fs w zip_path \<noteq> None"
      "zip_open E zip_path (println (''Extracting '' @ zip_path @ ''...'') (emit (Exists zip_path) w))
         = (Inl e, emit (ZipOpen zip_path)
              (println (''Extracting '' @ zip_path @ ''...'') (emit (Exists zip_path) w)))"
      "res = Inl e"
      "w' = (if is_BadZipFile e then emit (PrintExc ''Error: Invalid zip file: '' e) else id)
              (emit (ZipOpen zip_path)
                (println (''Extracting '' @ zip_path @ ''...'') (emit (Exists zip_path) w)))"
  | (extract_fail) b ms e w2 where "fs w zip_path = Some (File b)" "zip_parse E b = Inr ms"
      "extractall E ms extract_to (emit (ZipOpen zip_path)
          (println (''Extracting '' @ zip_path @ ''...'') (emit (Exists zip_path) w))) = (Inl e, w2)"
      "res = Inl e"
      "w' = (if is_BadZipFile e then emit (PrintExc ''Error: Invalid zip file: '' e) else id) w2"
      "os_denies E Reading (fs w) zip_path = None"
  | (ok) b ms u w2 where "fs w zip_path = Some (File b)" "zip_parse E b = Inr ms"
      "extractall E ms extract_to (emit (ZipOpen zip_path)
          (println (''Extracting '' @ zip_path @ ''...'') (emit (Exists zip_path) w))) = (Inr u, w2)"
      "res = Inr extract_to"
      "w' = println (''Extraction complete to: '' @ extract_to) w2"
      "os_denies E Reading (fs w) zip_path = None"
proof (cases "fs w zip_path = None")
  case True
  with assms missing show ?thesis by (simp add: unzip_file_def os_path_exists_def)
next
  case ex: False
  let ?w0 = "println (''Extracting '' @ zip_path @ ''...'') (emit (Exists zip_path) w)"
  let ?w1 = "emit (ZipOpen zip_path) ?w0"
  have a: "(res, w') = (case unzip_body E zip_path extract_to ?w0 of
             (Inl e, w2) \<Rightarrow>
               if is_BadZipFile e
               then (Inl e, emit (PrintExc ''Error: Invalid zip file: '' e) w2)
               else (Inl e, w2)
           | (Inr d, w2) \<Rightarrow> (Inr d, w2))"
    using assms ex by (simp add: unzip_file_def os_path_exists_def)
  obtain ro wo where o: "zip_open E zip_path ?w0 = (ro, wo)" by force
  from zip_open_effect[OF o] have wo: "wo = ?w1" .
  show ?thesis
  proof (cases ro)
    case (Inl e)
    with a o wo have "res = Inl e"
      "w' = (if is_BadZipFile e then emit (PrintExc ''Error: Invalid zip file: '' e) else id) ?w1"
      by (auto simp: unzip_body_def split: if_splits)
    with ex o wo Inl open_fail show ?thesis by blast
  next
    case (Inr ms)
    with o wo obtain b where b: "fs w zip_path = Some (File b)" "zip_parse E b = Inr ms"
      "os_denies E Reading (fs w) zip_path = None"
      by (auto simp: zip_open_def Let_def split: option.splits node.splits sum.splits)
    obtain rx w2 where x: "extractall E ms extract_to ?w1 = (rx, w2)" by force
    show ?thesis
    proof (cases rx)
      case e: (Inl e)
      with a o wo Inr x have "res = Inl e"
        "w' = (if is_BadZipFile e then emit (PrintExc ''Error: Invalid zip file: '' e) else id) w2"
        by (auto simp: unzip_body_def split: if_splits)
      with b x e extract_fail show ?thesis by blast
    next
      case u: (Inr u)
      with a o wo Inr x have "res = Inr extract_to"
        "w' = println (''Extraction complete to: '' @ extract_to) w2"
        by (simp_all add: unzip_body_def)
      with b x u ok show ?thesis by blast
    qed
  qed
qed

lemma logged_effect [simp]:
  "extends w ((if b then emit ev else id) w)"
  "fs ((if b then emit ev else id) w) = fs w"
  "stages w ((if b then emit (PrintExc p e) else id) w) = []"
  by (simp_all add: stages_def)

lemma zip_prelude:
  "extends w (emit (ZipOpen zp) (println s (emit (Exists zp) w)))"
  "stages w (emit (ZipOpen zp) (println s (emit (Exists zp) w))) = [ZipOpen zp]"
  "new_events w (emit (ZipOpen zp) (println s (emit (Exists zp) w)))
     = [Exists zp, Print (s @ [CHR 0x0A]), ZipOpen zp]"
  by (simp_all add: extends_def stages_def new_events_def)

lemma unzip_file_effect:
  assumes "unzip_file E zp et w = (res, w')"
  shows "extends w w'"
    "stages w w' = (if fs w zp = None then [] else [ZipOpen zp])"
    "dom (fs w) \<subseteq> dom (fs w')"
    "\<forall>d. res = Inr d \<longrightarrow> d = et \<and> fs w zp \<noteq> None"
proof -
  let ?w1 = "emit (ZipOpen zp) (println (''Extracting '' @ zp @ ''...'') (emit (Exists zp) w))"
  have all: "extends w w' \<and> stages w w' = (if fs w zp = None then [] else [ZipOpen zp])
    \<and> dom (fs w) \<subseteq> dom (fs w') \<and> (\<forall>d. res = Inr d \<longrightarrow> d = et \<and> fs w zp \<noteq> None)"
    using assms
  proof (cases rule: unzip_file_cases)
    case missing
    then show ?thesis by simp
  next
    case (open_fail e)
    have "extends ?w1 w'" "stages ?w1 w' = []" "fs w' = fs w"
      unfolding open_fail(4) by simp_all
    with extends_trans[of w ?w1 w'] zip_prelude(1,2)[of w zp] open_fail(1,3)
    show ?thesis by simp
  next
    case (extract_fail b ms e w2)
    note x = extractall_effect[OF extract_fail(3)]
    have l: "extends w2 w'" "stages w2 w' = []" "fs w' = fs w2"
      unfolding extract_fail(5) by simp_all
    from x have x1: "extends ?w1 w2" "stages ?w1 w2 = []" "dom (fs w) \<subseteq> dom (fs w2)"
      by simp_all
    from extends_trans[OF zip_prelude(1) x1(1)] zip_prelude(2)[of w zp] x1(2)
    have "extends w w2" "stages w w2 = [ZipOpen zp]" by simp_all
    with extends_trans[OF _ l(1)] l(2) have "extends w w'" "stages w w' = [ZipOpen zp]"
      by simp_all
    with x1(3) l(3) extract_fail(1,4) show ?thesis by simp
  next
    case (ok b ms u w2)
    note x = extractall_effect[OF ok(3)]
    have l: "extends w2 w'" "stages w2 w' = []" "fs w' = fs w2"
      unfolding ok(5) by simp_all
    from x have x1: "extends ?w1 w2" "stages ?w1 w2 = []" "dom (fs w) \<subseteq> dom (fs w2)"
      by simp_all
    from extends_trans[OF zip_prelude(1) x1(1)] zip_prelude(2)[of w zp] x1(2)
    have "extends w w2" "stages w w2 = [ZipOpen zp]" by simp_all
    with extends_trans[OF _ l(1)] l(2) have "extends w w'" "stages w w' = [ZipOpen zp]"
      by simp_all
    with x1(3) l(3) ok(1,4) show ?thesis by simp
  qed
  from all show "extends w w'"
    "stages w w' = (if fs w zp = None then [] else [ZipOpen zp])"
    "dom (fs w) \<subseteq> dom (fs w')"
    "\<forall>d. res = Inr d \<longrightarrow> d = et \<and> fs w zp \<noteq> None"
    by blast+
qed

lemma cleanup_step_False: "cleanup_step E False p w = (Inr (), w)"
  by (simp add: cleanup_step_def)

lemma cleanup_step_True_cases:
  assumes "cleanup_step E True p w = (r, w')"
  obtains
    (remove_fail) e where "os_remove E p w = (Inl e, w')" "r = Inl e" "w' = emit (Remove p) w"
  | (removed) w1 where "os_remove E p w = (Inr (), w1)" "r = Inr ()"
      "w' = println (''Cleaned up: '' @ p) w1" "fs w' = (fs w)(p := None)"
      "trace w1 = trace w @ [Remove p]"
proof -
  obtain ro w1 where o: "os_remove E p w = (ro, w1)" by force
  show ?thesis
  proof (cases ro)
    case (Inl e)
    with assms o have "r = Inl e" "w' = w1" by (simp_all add: cleanup_step_def)
    with o Inl os_remove_Inl[of E p w e w1] remove_fail show ?thesis by blast
  next
    case (Inr u)
    with assms o have "r = Inr ()" "w' = println (''Cleaned up: '' @ p) w1"
      by (simp_all add: cleanup_step_def)
    moreover from o Inr have o': "os_remove E p w = (Inr (), w1)" by simp
    moreover from os_remove_Inr[OF o'] have "fs w1 = (fs w)(p := None)"
      "trace w1 = trace w @ [Remove p]" by simp_all
    ultimately show ?thesis using removed by simp
  qed
qed

lemma cleanup_step_effect:
  assumes "cleanup_step E c p w = (r, w')"
  shows "extends w w'" "stages w w' = (if c then [Remove p] else [])"
    "\<forall>u. c \<and> r = Inr u \<longrightarrow> fs w' p = None"
    "\<forall>e. r = Inl e \<longrightarrow> fs w' = fs w"
proof -
  have "extends w w' \<and> stages w w' = (if c then [Remove p] else [])
    \<and> (\<forall>u. c \<and> r = Inr u \<longrightarrow> fs w' p = None) \<and> (\<forall>e. r = Inl e \<longrightarrow> fs w' = fs w)"
  proof (cases c)
    case False
    with assms show ?thesis by (simp add: cleanup_step_False)
  next
    case True
    with assms have "cleanup_step E True p w = (r, w')" by simp
    then show ?thesis
    proof (cases rule: cleanup_step_True_cases)
      case (remove_fail e)
      with True show ?thesis by simp
    next
      case (removed w1)
      then have "trace w' = trace w @ [Remove p, Print ((''Cleaned up: '' @ p) @ [CHR 0x0A])]"
        by simp
      with removed True show ?thesis
        by (simp add: extends_def stages_def new_events_def)
    qed
  qed
  then show "extends w w'" "stages w w' = (if c then [Remove p] else [])"
    "\<forall>u. c \<and> r = Inr u \<longrightarrow> fs w' p = None"
    "\<forall>e. r = Inl e \<longrightarrow> fs w' = fs w"
    by blast+
qed

lemma extract_from_location_cases:
  assumes "extract_from_location E zp et c w = (res, w')"
  obtains
    (unzip_fail) e w1 where "unzip_file E zp et w = (Inl e, w1)" "res = Inl e"
      "w' = emit (PrintExc ''Error in extract_from_location: '' e) w1"
  | (cleanup_fail) d w1 e w2 where "unzip_file E zp et w = (Inr d, w1)"
      "cleanup_step E c zp w1 = (Inl e, w2)" "res = Inl e"
      "w' = emit (PrintExc ''Error in extract_from_location: '' e) w2"
  | (ok) d w1 u where "unzip_file E zp et w = (Inr d, w1)"
      "cleanup_step E c zp w1 = (Inr u, w')" "res = Inr d"
proof -
  obtain ru w1 where u: "unzip_file E zp et w = (ru, w1)" by force
  show ?thesis
  proof (cases ru)
    case (Inl e)
    with assms u have "res = Inl e"
      "w' = emit (PrintExc ''Error in extract_from_location: '' e) w1"
      by (simp_all add: extract_from_location_def)
    with u Inl unzip_fail show ?thesis by blast
  next
    case (Inr d)
    obtain rc w2 where c: "cleanup_step E c zp w1 = (rc, w2)" by force
    show ?thesis
    proof (cases rc)
      case e: (Inl e)
      with assms u Inr c have "res = Inl e"
        "w' = emit (PrintExc ''Error in extract_from_location: '' e) w2"
        by (simp_all add: extract_from_location_def)
      with u Inr c e cleanup_fail show ?thesis by blast
    next
      case r: (Inr x)
      with assms u Inr c have "res = Inr d" "w' = w2"
        by (simp_all add: extract_from_location_def)
      with u Inr c r ok show ?thesis by blast
    qed
  qed
qed

lemma download_and_extract_cases:
  assumes "download_and_extract E url filename et c sp w = (res, w')"
  obtains
    (download_fail) e w1 where "download_file E url filename sp w = (Inl e, w1)" "res = Inl e"
      "w' = emit (PrintExc ''Error in download_and_extract: '' e) w1"
  | (unzip_fail) f w1 e w2 where "download_file E url filename sp w = (Inr f, w1)"
      "unzip_file E f et w1 = (Inl e, w2)" "res = Inl e"
      "w' = emit (PrintExc ''Error in download_and_extract: '' e) w2"
  | (cleanup_fail) f w1 d w2 e w3 where "download_file E url filename sp w = (Inr f, w1)"
      "unzip_file E f et w1 = (Inr d, w2)" "cleanup_step E c f w2 = (Inl e, w3)" "res = Inl e"
      "w' = emit (PrintExc ''Error in download_and_extract: '' e) w3"
  | (ok) f w1 d w2 u where "download_file E url filename sp w = (Inr f, w1)"
      "unzip_file E f et w1 = (Inr d, w2)" "cleanup_step E c f w2 = (Inr u, w')"
      "res = Inr (f, d)"
proof -
  obtain rd w1 where d: "download_file E url filename sp w = (rd, w1)" by force
  show ?thesis
  proof (cases rd)
    case (Inl e)
    with assms d have "res = Inl e"
      "w' = emit (PrintExc ''Error in download_and_extract: '' e) w1"
      by (simp_all add: download_and_extract_def)
    with d Inl download_fail show ?thesis by blast
  next
    case f: (Inr f)
    obtain ru w2 where u: "unzip_file E f et w1 = (ru, w2)" by force
    show ?thesis
    proof (cases ru)
      case (Inl e)
      with assms d f u have "res = Inl e"
        "w' = emit (PrintExc ''Error in download_and_extract: '' e) w2"
        by (simp_all add: download_and_extract_def)
      with d f u Inl unzip_fail show ?thesis by blast
    next
      case (Inr dir)
      obtain rc w3 where c: "cleanup_step E c f w2 = (rc, w3)" by force
      show ?thesis
      proof (cases rc)
        case e: (Inl e)
        with assms d f u Inr c have "res = Inl e"
          "w' = emit (PrintExc ''Error in download_and_extract: '' e) w3"
          by (simp_all add: download_and_extract_def)
        with d f u Inr c e cleanup_fail show ?thesis by blast
      next
        case r: (Inr x)
        with assms d f u Inr c have "res = Inr (f, dir)" "w' = w3"
          by (simp_all add: download_and_extract_def)
        with d f u Inr c r ok show ?thesis by blast
      qed
    qed
  qed
qed

lemma cleanup_step_Inl_True: "cleanup_step E c p w = (Inl e, w') \<Longrightarrow> c"
  by (cases c) (simp_all add: cleanup_step_False)

lemma chain3:
  assumes "extends w w1" "extends w1 w2" "extends w2 w3"
  shows "extends w w3" "stages w w3 = stages w w1 @ stages w1 w2 @ stages w2 w3"
proof -
  note a = extends_trans[OF assms(1,2)]
  note b = extends_trans[OF a(1) assms(3)]
  show "extends w w3" by (rule b(1))
  show "stages w w3 = stages w w1 @ stages w1 w2 @ stages w2 w3" using a(3) b(3) by simp
qed

lemma extract_from_location_summary:
  assumes "extract_from_location E zp et c w = (res, w')"
  shows "extends w w' \<and>
    (case unzip_file E zp et w of
       (Inl e, w1) \<Rightarrow>
         res = Inl e \<and> stages w w' = (if fs w zp = None then [] else [ZipOpen zp])
         \<and> fs w' = fs w1
     | (Inr d, w1) \<Rightarrow>
         fs w zp \<noteq> None \<and> d = et \<and>
         (if c then
            (case os_remove E zp w1 of
               (Inl e, w2) \<Rightarrow>
                 res = Inl e \<and> stages w w' = [ZipOpen zp, Remove zp] \<and> fs w' = fs w1
             | (Inr u, w2) \<Rightarrow>
                 res = Inr d \<and> stages w w' = [ZipOpen zp, Remove zp]
                 \<and> fs w' = (fs w1)(zp := None))
          else res = Inr d \<and> w' = w1 \<and> stages w w' = [ZipOpen zp]))"
  using assms
proof (cases rule: extract_from_location_cases)
  case (unzip_fail e w1)
  note u = unzip_file_effect[OF unzip_fail(1)]
  have l: "extends w1 w'" "stages w1 w' = []" "fs w' = fs w1" using unzip_fail(3) by simp_all
  from extends_trans[OF u(1) l(1)] u(2) l(2)
  have "extends w w'" "stages w w' = (if fs w zp = None then [] else [ZipOpen zp])" by simp_all
  then show ?thesis using unzip_fail(1,2) l(3) by simp
next
  case (cleanup_fail d w1 e w2)
  note u = unzip_file_effect[OF cleanup_fail(1)]
  from u(4) have ex: "fs w zp \<noteq> None" "d = et" by simp_all
  from cleanup_step_Inl_True[OF cleanup_fail(2)] have c: c .
  with cleanup_fail(2) have "cleanup_step E True zp w1 = (Inl e, w2)" by simp
  then have r: "os_remove E zp w1 = (Inl e, w2)" "w2 = emit (Remove zp) w1"
    by (cases rule: cleanup_step_True_cases; simp)+
  have l: "extends w1 w2" "stages w1 w2 = [Remove zp]" "fs w2 = fs w1" using r(2) by simp_all
  have m: "extends w2 w'" "stages w2 w' = []" "fs w' = fs w2" using cleanup_fail(4) by simp_all
  from chain3[OF u(1) l(1) m(1)] u(2) ex l(2) m(2)
  have "extends w w'" "stages w w' = [ZipOpen zp, Remove zp]" by simp_all
  then show ?thesis using cleanup_fail(1,3) ex c r(1) l(3) m(3) by simp
next
  case (ok d w1 u)
  note z = unzip_file_effect[OF ok(1)]
  from z(4) have ex: "fs w zp \<noteq> None" "d = et" by simp_all
  show ?thesis
  proof (cases c)
    case False
    with ok(2) have "w' = w1" by (simp add: cleanup_step_False)
    with z(1,2) ex ok(1,3) False show ?thesis by simp
  next
    case True
    with ok(2) have "cleanup_step E True zp w1 = (Inr u, w')" by simp
    then obtain w2 where r: "os_remove E zp w1 = (Inr (), w2)" "fs w' = (fs w1)(zp := None)"
      by (cases rule: cleanup_step_True_cases) simp_all
    note k = cleanup_step_effect[OF ok(2)]
    from extends_trans[OF z(1) k(1)] z(2) k(2) ex True
    have "extends w w'" "stages w w' = [ZipOpen zp, Remove zp]" by simp_all
    then show ?thesis using ok(1,3) ex True r by simp
  qed
qed

lemma download_and_extract_summary:
  assumes "download_and_extract E url filename et c sp w = (res, w')"
  shows "extends w w' \<and>
    (case download_file E url filename sp w of
       (Inl e, w1) \<Rightarrow> res = Inl e \<and> stages w w' = [HttpGet url] \<and> fs w' = fs w1
     | (Inr f, w1) \<Rightarrow>
         f = local_filename url filename \<and> fs w1 f \<noteq> None \<and>
         (case unzip_file E f et w1 of
            (Inl e, w2) \<Rightarrow>
              res = Inl e \<and> stages w w' = [HttpGet url, ZipOpen f] \<and> fs w' = fs w2
          | (Inr d, w2) \<Rightarrow>
              d = et \<and> fs w2 f \<noteq> None \<and>
              (if c then
                 (case os_remove E f w2 of
                    (Inl e, w3) \<Rightarrow>
                      res = Inl e \<and> stages w w' = [HttpGet url, ZipOpen f, Remove f]
                      \<and> fs w' = fs w2
                  | (Inr u, w3) \<Rightarrow>
                      res = Inr (f, d) \<and> stages w w' = [HttpGet url, ZipOpen f, Remove f]
                      \<and> fs w' = (fs w2)(f := None))
               else res = Inr (f, d) \<and> w' = w2 \<and> stages w w' = [HttpGet url, ZipOpen f])))"
  using assms
proof (cases rule: download_and_extract_cases)
  case (download_fail e w1)
  note d = download_file_effect[OF download_fail(1)]
  have l: "extends w1 w'" "stages w1 w' = []" "fs w' = fs w1" using download_fail(3) by simp_all
  from extends_trans[OF d(1) l(1)] d(2) l(2)
  have "extends w w'" "stages w w' = [HttpGet url]" by simp_all
  then show ?thesis using download_fail(1,2) l(3) by simp
next
  case (unzip_fail f w1 e w2)
  note d = download_file_effect[OF unzip_fail(1)]
  from d(4) have f: "f = local_filename url filename" "fs w1 f \<noteq> None" by auto
  note u = unzip_file_effect[OF unzip_fail(2)]
  have l: "extends w2 w'" "stages w2 w' = []" "fs w' = fs w2" using unzip_fail(4) by simp_all
  from chain3[OF d(1) u(1) l(1)] d(2) u(2) f(2) l(2)
  have "extends w w'" "stages w w' = [HttpGet url, ZipOpen f]" by simp_all
  then show ?thesis using unzip_fail(1,2,3) f l(3) by simp
next
  case (cleanup_fail f w1 d w2 e w3)
  note dl = download_file_effect[OF cleanup_fail(1)]
  from dl(4) have f: "f = local_filename url filename" "fs w1 f \<noteq> None" by auto
  note u = unzip_file_effect[OF cleanup_fail(2)]
  from u(3,4) f(2) have k: "d = et" "fs w2 f \<noteq> None" by auto
  from cleanup_step_Inl_True[OF cleanup_fail(3)] have c: c .
  with cleanup_fail(3) have "cleanup_step E True f w2 = (Inl e, w3)" by simp
  then have r: "os_remove E f w2 = (Inl e, w3)" "w3 = emit (Remove f) w2"
    by (cases rule: cleanup_step_True_cases; simp)+
  have l: "extends w2 w3" "stages w2 w3 = [Remove f]" "fs w3 = fs w2" using r(2) by simp_all
  have m: "extends w3 w'" "stages w3 w' = []" "fs w' = fs w3" using cleanup_fail(5) by simp_all
  note a = chain3[OF dl(1) u(1) l(1)]
  from extends_trans[OF a(1) m(1)] a(2) dl(2) u(2) f(2) l(2) m(2)
  have "extends w w'" "stages w w' = [HttpGet url, ZipOpen f, Remove f]" by simp_all
  then show ?thesis using cleanup_fail(1,2,4) f k c r(1) l(3) m(3) by simp
next
  case (ok f w1 d w2 u)
  note dl = download_file_effect[OF ok(1)]
  from dl(4) have f: "f = local_filename url filename" "fs w1 f \<noteq> None" by auto
  note z = unzip_file_effect[OF ok(2)]
  from z(3,4) f(2) have k: "d = et" "fs w2 f \<noteq> None" by auto
  show ?thesis
  proof (cases c)
    case False
    with ok(3) have "w' = w2" by (simp add: cleanup_step_False)
    with extends_trans[OF dl(1) z(1)] dl(2) z(2) f(2)
    have "extends w w'" "stages w w' = [HttpGet url, ZipOpen f]" "w' = w2" by simp_all
    then show ?thesis using ok(1,2,4) f k False by simp
  next
    case True
    with ok(3) have "cleanup_step E True f w2 = (Inr u, w')" by simp
    then obtain w3 where r: "os_remove E f w2 = (Inr (), w3)" "fs w' = (fs w2)(f := None)"
      by (cases rule: cleanup_step_True_cases) simp_all
    note c3 = cleanup_step_effect[OF ok(3)]
    from chain3[OF dl(1) z(1) c3(1)] dl(2) z(2) f(2) c3(2) True
    have "extends w w'" "stages w w' = [HttpGet url, ZipOpen f, Remove f]" by simp_all
    then show ?thesis using ok(1,2,4) f k True r by simp
  qed
qed

lemma example_fs [simp]:
  "fs example_world ''junk.zip'' = Some (File ''hello'')"
  "fs example_world ''bad.zip'' = Some (File ''PKbad'')"
  "fs example_world ''data.zip'' = Some (File ''PKok'')"
  "fs example_world ''odd.zip'' = Some (File ''PKodd'')"
  "fs example_world ''nope.zip'' = None"
  "trace example_world = []"
  by (simp_all add: example_world_def)

lemma example_env_simps [simp]:
  "zip_parse example_env ''hello'' = Inl BadZipFile"
  "zip_parse example_env ''PKbad''
     = Inr [Member ''a.txt'' ''A'', DamagedData ''c.txt'' [] BadZipFile]"
  "zip_parse example_env ''PKok'' = Inr [Member ''a.txt'' ''A'', Member ''sub/b.txt'' ''B'']"
  "zip_parse example_env ''PKodd'' = Inl UnicodeDecodeError"
  "zip_target example_env d n = d @ ''/'' @ n"
  "os_denies example_env Reading files p = None"
  "os_denies example_env Writing files p = (if p = ''nodir/a.zip'' then Some ENOENT else None)"
  "os_denies example_env Deleting files p = (if p = ''kept.zip'' then Some EACCES else None)"
  by (simp_all add: example_env_def)

section \<open>The claims about extraction and filename derivation\<close>

text \<open>
  C4: when the source path does not exist, \<^verbatim>\<open>unzip_file\<close> fails with the not-found error
  raised at line 82, and the existence test is all it has done by then: the archive was
  neither opened nor read, nothing was printed, and the file system is untouched.
\<close>

theorem unzip_file_missing:
  assumes "fs w zip_path = None"
  shows "unzip_file E zip_path extract_to w =
           (Inl (FileNotFoundError (''Zip file not found: '' @ zip_path)),
            emit (Exists zip_path) w)
         \<and> new_events w (snd (unzip_file E zip_path extract_to w)) = [Exists zip_path]
         \<and> fs (snd (unzip_file E zip_path extract_to w)) = fs w"
  using assms by (simp add: unzip_file_def os_path_exists_def)

theorem unzip_file_missing_witness:
  "fs example_world ''nope.zip'' = None
   \<and> fst (unzip_file example_env ''nope.zip'' ''out'' example_world)
       = Inl (FileNotFoundError ''Zip file not found: nope.zip'')
   \<and> new_events example_world (snd (unzip_file example_env ''nope.zip'' ''out'' example_world))
       = [Exists ''nope.zip'']"
proof -
  have h: "fs example_world ''nope.zip'' = None" by (simp add: example_world_def)
  from unzip_file_missing[OF h, of example_env "''out''"] h show ?thesis by simp
qed




text \<open>
  C6: with no filename supplied and a URL that contains \<^verbatim>\<open>/\<close>, the local filename is
  exactly the substring after the final \<^verbatim>\<open>/\<close>: the URL is \<open>pre @ ''/'' @ f\<close> with no
  \<^verbatim>\<open>/\<close> in \<open>f\<close>, the call behaves as if \<open>f\<close> had been given, and when it succeeds it
  has opened \<open>f\<close> for writing, left a file at \<open>f\<close> and returned \<open>f\<close>.
\<close>

theorem derived_filename_is_last_segment:
  assumes "CHR ''/'' \<in> set url"
  shows "\<exists>pre f. url = pre @ CHR ''/'' # f \<and> CHR ''/'' \<notin> set f
           \<and> derive_filename url = Inr f
           \<and> download_file E url None sp w = download_file E url (Some f) sp w
           \<and> (\<forall>r w'. download_file E url None sp w = (Inr r, w')
                \<longrightarrow> r = f \<and> OpenWrite f \<in> set (new_events w w') \<and> fs w' f \<noteq> None)"
proof -
  let ?f = "last (split_on CHR ''/'' url)"
  from split_decomp[OF assms] obtain pre where p: "url = pre @ CHR ''/'' # ?f" by blast
  have "\<forall>r w'. download_file E url None sp w = (Inr r, w')
          \<longrightarrow> r = ?f \<and> OpenWrite ?f \<in> set (new_events w w') \<and> fs w' ?f \<noteq> None"
    using download_file_effect(4)[of E url None sp w]
    by (fastforce simp: local_filename_def)
  with p last_split_char[of "CHR ''/''" url] derive_filename_last[of url]
    download_file_derived[of E url sp w]
  show ?thesis by blast
qed

lemma example_get [simp]:
  "requests_get example_env ''h/data.zip''
     = Inr \<lparr>status_code = 200, content_length = Value 4,
            body = [''PK'', ''ok''], body_error = None\<rparr>"
  "requests_get example_env ''h/gone.zip''
     = Inr \<lparr>status_code = 404, content_length = Absent, body = [], body_error = None\<rparr>"
  "requests_get example_env ''h/cut.zip''
     = Inr \<lparr>status_code = 200, content_length = Absent,
            body = [''PK''], body_error = Some ConnectionError\<rparr>"
  "requests_get example_env ''h/same.zip''
     = Inr \<lparr>status_code = 304, content_length = Absent, body = [], body_error = None\<rparr>"
  "requests_get example_env ''h/kept.zip''
     = Inr \<lparr>status_code = 200, content_length = Absent,
            body = [''PKok''], body_error = None\<rparr>"
  "requests_get example_env ''h/none.zip'' = Inl ConnectionError"
  by (simp_all add: example_env_def)

theorem derived_filename_is_last_segment_witness:
  "derive_filename ''h/data.zip'' = Inr ''data.zip''
   \<and> fst (download_file example_env ''h/data.zip'' None False example_world) = Inr ''data.zip''"
proof -
  have h: "CHR ''/'' \<in> set ''h/data.zip''" by simp
  have d: "derive_filename ''h/data.zip'' = Inr ''data.zip''"
    by (simp add: derive_filename_def index_last_def)
  have dl: "fst (download_file example_env ''h/data.zip'' None False example_world)
      = Inr ''data.zip''"
    by (simp add: download_file_def d download_body_def raise_for_status_def
        total_size_of_def open_wb_def write_check_def Let_def response_content_def)
  from derived_filename_is_last_segment[OF h, of example_env False example_world]
  obtain pre f where pf: "derive_filename ''h/data.zip'' = Inr f"
    "\<forall>r w'. download_file example_env ''h/data.zip'' None False example_world = (Inr r, w')
        \<longrightarrow> r = f" by blast
  from pf(1) d have f: "f = ''data.zip''" by simp
  obtain w' where "download_file example_env ''h/data.zip'' None False example_world
      = (Inr ''data.zip'', w')"
    using dl by (cases "download_file example_env ''h/data.zip'' None False example_world") simp
  with pf(2) f have "fst (download_file example_env ''h/data.zip'' None False example_world) = Inr f"
    by simp
  with pf(1) f show ?thesis by simp
qed

section \<open>The pipeline\<close>

lemma remove_in_stages:
  "Remove p \<in> set (new_events w w') \<longleftrightarrow> Remove p \<in> set (stages w w')"
  by (simp add: stages_def)

lemma dae_download_fail:
  assumes "download_and_extract E url filename et c sp w = (res, w')"
    and "download_file E url filename sp w = (Inl e, w1)"
  shows "res = Inl e \<and> stages w w' = [HttpGet url] \<and> fs w' = fs w1"
  using download_and_extract_summary[OF assms(1)] assms(2) by simp

lemma dae_unzip_fail:
  assumes "download_and_extract E url filename et c sp w = (res, w')"
    and "download_file E url filename sp w = (Inr f, w1)"
    and "unzip_file E f et w1 = (Inl e, w2)"
  shows "res = Inl e \<and> stages w w' = [HttpGet url, ZipOpen f] \<and> fs w' = fs w2"
  using download_and_extract_summary[OF assms(1)] assms(2,3) by simp

lemma dae_remove_fail:
  assumes "download_and_extract E url filename et c sp w = (res, w')"
    and "download_file E url filename sp w = (Inr f, w1)"
    and "unzip_file E f et w1 = (Inr d, w2)"
    and "c" and "os_remove E f w2 = (Inl e, w3)"
  shows "res = Inl e \<and> stages w w' = [HttpGet url, ZipOpen f, Remove f] \<and> fs w' = fs w2"
  using download_and_extract_summary[OF assms(1)] assms(2,3,4,5) by simp

lemma dae_ok:
  assumes "download_and_extract E url filename et c sp w = (res, w')"
    and "download_file E url filename sp w = (Inr f, w1)"
    and "unzip_file E f et w1 = (Inr d, w2)"
    and "c \<longrightarrow> (\<exists>w3. os_remove E f w2 = (Inr (), w3))"
  shows "res = Inr (f, d) \<and> f = local_filename url filename \<and> d = et
    \<and> stages w w' = [HttpGet url, ZipOpen f] @ (if c then [Remove f] else [])
    \<and> fs w' = (if c then (fs w2)(f := None) else fs w2)"
proof (cases c)
  case False
  with download_and_extract_summary[OF assms(1)] assms(2,3) show ?thesis by auto
next
  case True
  with assms(4) obtain w3 where "os_remove E f w2 = (Inr (), w3)" by blast
  with True download_and_extract_summary[OF assms(1)] assms(2,3) show ?thesis by auto
qed

lemma dae_returns:
  assumes "download_and_extract E url filename et c sp w = (res, w')"
    and "res = Inr r"
  shows "\<exists>f w1 d w2. r = (f, d)
          \<and> download_file E url filename sp w = (Inr f, w1)
          \<and> unzip_file E f et w1 = (Inr d, w2)
          \<and> (c \<longrightarrow> (\<exists>w3. os_remove E f w2 = (Inr (), w3)))"
  using assms(1)
proof (cases rule: download_and_extract_cases)
  case (download_fail e w1)
  with assms(2) show ?thesis by simp
next
  case (unzip_fail f w1 e w2)
  with assms(2) show ?thesis by simp
next
  case (cleanup_fail f w1 d w2 e w3)
  with assms(2) show ?thesis by simp
next
  case (ok f w1 d w2 u)
  have "c \<longrightarrow> (\<exists>w3. os_remove E f w2 = (Inr (), w3))"
  proof
    assume c
    with ok(3) have "cleanup_step E True f w2 = (Inr u, w')" by simp
    then show "\<exists>w3. os_remove E f w2 = (Inr (), w3)"
      by (cases rule: cleanup_step_True_cases) auto
  qed
  moreover from ok(4) assms(2) have "r = (f, d)" by simp
  ultimately show ?thesis using ok(1,2) by blast
qed

lemma example_download:
  "\<exists>w1. download_file example_env ''h/data.zip'' None False example_world
           = (Inr ''data.zip'', w1)
        \<and> fs w1 = (fs example_world)(''data.zip'' \<mapsto> File ''PKok'')"
  by (simp add: download_file_def derive_filename_def index_last_def download_body_def
      raise_for_status_def total_size_of_def open_wb_def write_check_def Let_def
      response_content_def)

lemma example_same:
  "\<exists>w1. download_file example_env ''h/same.zip'' None False example_world
           = (Inr ''same.zip'', w1)
        \<and> fs w1 = (fs example_world)(''same.zip'' \<mapsto> File [])"
  by (simp add: download_file_def derive_filename_def index_last_def download_body_def
      raise_for_status_def total_size_of_def open_wb_def write_check_def Let_def
      response_content_def example_world_def)

lemma example_kept:
  "\<exists>w1. download_file example_env ''h/kept.zip'' None False example_world
           = (Inr ''kept.zip'', w1)
        \<and> fs w1 = (fs example_world)(''kept.zip'' \<mapsto> File ''PKok'')"
  by (simp add: download_file_def derive_filename_def index_last_def download_body_def
      raise_for_status_def total_size_of_def open_wb_def write_check_def Let_def
      response_content_def example_world_def)

lemma example_gone:
  "\<exists>w1. download_file example_env ''h/gone.zip'' None False example_world
           = (Inl (HTTPError 404), w1) \<and> fs w1 = fs example_world"
  by (simp add: download_file_def derive_filename_def index_last_def download_body_def
      raise_for_status_def Let_def)

lemma example_unzip:
  assumes "fs w1 zp = Some (File ''PKok'')" "zp \<noteq> ''out/a.txt''" "zp \<noteq> ''out/sub/b.txt''"
    "fs w1 ''out/a.txt'' \<noteq> Some Dir" "fs w1 ''out/sub/b.txt'' \<noteq> Some Dir"
  shows "\<exists>w2. unzip_file example_env zp ''out'' w1 = (Inr ''out'', w2)
           \<and> fs w2 = (fs w1)(''out/a.txt'' \<mapsto> File ''A'', ''out/sub/b.txt'' \<mapsto> File ''B'')"
  using assms
  by (simp add: unzip_file_def os_path_exists_def unzip_body_def zip_open_def Let_def
      extract_member_def write_check_def store_def)

lemma example_unzip_empty:
  assumes "fs w1 zp = Some (File [])"
  shows "\<exists>w2. unzip_file example_env zp ''out'' w1 = (Inl BadZipFile, w2) \<and> fs w2 = fs w1"
  using assms
  by (simp add: unzip_file_def os_path_exists_def unzip_body_def zip_open_def Let_def
      example_env_def)

lemma example_remove:
  assumes "fs w2 ''data.zip'' = Some (File b)"
  shows "\<exists>w3. os_remove example_env ''data.zip'' w2 = (Inr (), w3)"
  using assms by (simp add: os_remove_def Let_def)

lemma example_remove_denied:
  assumes "fs w2 ''kept.zip'' = Some (File b)"
  shows "\<exists>w3. os_remove example_env ''kept.zip'' w2 = (Inl (OSError EACCES ''kept.zip''), w3)"
  using assms by (simp add: os_remove_def Let_def)

text \<open>
  C1: in \<^verbatim>\<open>download_and_extract\<close> the stages run in the order download, extraction of
  the file just downloaded, optional cleanup of that same file. A stage runs only when
  the one before succeeded: the stage-marking calls of a run are a prefix of
  \<open>[HttpGet url, ZipOpen f, Remove f]\<close>, cut where a stage fails, each made once (no
  retry). The failure of a stage is the failure of the whole call, with the same
  exception, and the file system is as that stage left it; a result is returned only
  when every stage that had to run has succeeded.
\<close>

theorem download_and_extract_stage_order:
  assumes "download_and_extract E url filename extract_to cleanup show_progress w = (res, w')"
  shows
    "(\<forall>e w1. download_file E url filename show_progress w = (Inl e, w1) \<longrightarrow>
        res = Inl e \<and> stages w w' = [HttpGet url] \<and> fs w' = fs w1)
   \<and> (\<forall>f w1 e w2. download_file E url filename show_progress w = (Inr f, w1)
          \<and> unzip_file E f extract_to w1 = (Inl e, w2) \<longrightarrow>
        res = Inl e \<and> stages w w' = [HttpGet url, ZipOpen f] \<and> fs w' = fs w2)
   \<and> (\<forall>f w1 d w2 e w3. download_file E url filename show_progress w = (Inr f, w1)
          \<and> unzip_file E f extract_to w1 = (Inr d, w2)
          \<and> cleanup \<and> os_remove E f w2 = (Inl e, w3) \<longrightarrow>
        res = Inl e \<and> stages w w' = [HttpGet url, ZipOpen f, Remove f] \<and> fs w' = fs w2)
   \<and> (\<forall>f w1 d w2. download_file E url filename show_progress w = (Inr f, w1)
          \<and> unzip_file E f extract_to w1 = (Inr d, w2)
          \<and> (cleanup \<longrightarrow> (\<exists>w3. os_remove E f w2 = (Inr (), w3))) \<longrightarrow>
        res = Inr (f, d) \<and> f = local_filename url filename \<and> d = extract_to
        \<and> stages w w' = [HttpGet url, ZipOpen f] @ (if cleanup then [Remove f] else []))
   \<and> (\<forall>r. res = Inr r \<longrightarrow>
        (\<exists>f w1 d w2. r = (f, d)
          \<and> download_file E url filename show_progress w = (Inr f, w1)
          \<and> unzip_file E f extract_to w1 = (Inr d, w2)
          \<and> (cleanup \<longrightarrow> (\<exists>w3. os_remove E f w2 = (Inr (), w3)))))"
proof (intro conjI allI impI)
  fix e w1
  assume "download_file E url filename show_progress w = (Inl e, w1)"
  from dae_download_fail[OF assms this]
  show "res = Inl e" "stages w w' = [HttpGet url]" "fs w' = fs w1" by simp_all
next
  fix f w1 e w2
  assume a: "download_file E url filename show_progress w = (Inr f, w1)
          \<and> unzip_file E f extract_to w1 = (Inl e, w2)"
  from dae_unzip_fail[OF assms a[THEN conjunct1] a[THEN conjunct2]]
  show "res = Inl e" "stages w w' = [HttpGet url, ZipOpen f]" "fs w' = fs w2" by simp_all
next
  fix f w1 d w2 e w3
  assume a: "download_file E url filename show_progress w = (Inr f, w1)
          \<and> unzip_file E f extract_to w1 = (Inr d, w2)
          \<and> cleanup \<and> os_remove E f w2 = (Inl e, w3)"
  then have b: "download_file E url filename show_progress w = (Inr f, w1)"
    "unzip_file E f extract_to w1 = (Inr d, w2)" "cleanup" "os_remove E f w2 = (Inl e, w3)"
    by simp_all
  from dae_remove_fail[OF assms b]
  show "res = Inl e" "stages w w' = [HttpGet url, ZipOpen f, Remove f]" "fs w' = fs w2"
    by simp_all
next
  fix f w1 d w2
  assume a: "download_file E url filename show_progress w = (Inr f, w1)
          \<and> unzip_file E f extract_to w1 = (Inr d, w2)
          \<and> (cleanup \<longrightarrow> (\<exists>w3. os_remove E f w2 = (Inr (), w3)))"
  then have b: "download_file E url filename show_progress w = (Inr f, w1)"
    "unzip_file E f extract_to w1 = (Inr d, w2)"
    "cleanup \<longrightarrow> (\<exists>w3. os_remove E f w2 = (Inr (), w3))"
    by simp_all
  from dae_ok[OF assms b]
  show "res = Inr (f, d)" "f = local_filename url filename" "d = extract_to"
    "stages w w' = [HttpGet url, ZipOpen f] @ (if cleanup then [Remove f] else [])"
    by simp_all
next
  fix r
  assume "res = Inr r"
  from dae_returns[OF assms this]
  show "\<exists>f w1 d w2. r = (f, d)
          \<and> download_file E url filename show_progress w = (Inr f, w1)
          \<and> unzip_file E f extract_to w1 = (Inr d, w2)
          \<and> (cleanup \<longrightarrow> (\<exists>w3. os_remove E f w2 = (Inr (), w3)))" .
qed

theorem download_and_extract_stage_order_witness:
  "(\<exists>w'. download_and_extract example_env ''h/data.zip'' None ''out'' True False example_world
            = (Inr (''data.zip'', ''out''), w')
        \<and> stages example_world w'
            = [HttpGet ''h/data.zip'', ZipOpen ''data.zip'', Remove ''data.zip'']
        \<and> (\<exists>w1 w2 w3. download_file example_env ''h/data.zip'' None False example_world
                = (Inr ''data.zip'', w1)
              \<and> unzip_file example_env ''data.zip'' ''out'' w1 = (Inr ''out'', w2)
              \<and> os_remove example_env ''data.zip'' w2 = (Inr (), w3)))
   \<and> (\<exists>w'. download_and_extract example_env ''h/gone.zip'' None ''out'' True False example_world
            = (Inl (HTTPError 404), w')
        \<and> stages example_world w' = [HttpGet ''h/gone.zip'']
        \<and> fs w' = fs example_world)
   \<and> (\<exists>w'. download_and_extract example_env ''h/same.zip'' None ''out'' True False example_world
            = (Inl BadZipFile, w')
        \<and> stages example_world w' = [HttpGet ''h/same.zip'', ZipOpen ''same.zip''])
   \<and> (\<exists>w'. download_and_extract example_env ''h/kept.zip'' None ''out'' True False example_world
            = (Inl (OSError EACCES ''kept.zip''), w')
        \<and> stages example_world w'
            = [HttpGet ''h/kept.zip'', ZipOpen ''kept.zip'', Remove ''kept.zip'']
        \<and> fs w' ''kept.zip'' = Some (File ''PKok''))"
proof (intro conjI)
  obtain w1 where d: "download_file example_env ''h/data.zip'' None False example_world
      = (Inr ''data.zip'', w1)"
    and f1: "fs w1 = (fs example_world)(''data.zip'' \<mapsto> File ''PKok'')"
    using example_download by blast
  from f1 have "fs w1 ''data.zip'' = Some (File ''PKok'')" "''data.zip'' \<noteq> ''out/a.txt''"
    "''data.zip'' \<noteq> ''out/sub/b.txt''"
    "fs w1 ''out/a.txt'' \<noteq> Some Dir" "fs w1 ''out/sub/b.txt'' \<noteq> Some Dir"
    by (simp_all add: example_world_def)
  from example_unzip[OF this]
  obtain w2 where u: "unzip_file example_env ''data.zip'' ''out'' w1 = (Inr ''out'', w2)"
    and f2: "fs w2 = (fs w1)(''out/a.txt'' \<mapsto> File ''A'', ''out/sub/b.txt'' \<mapsto> File ''B'')"
    by blast
  from f1 f2 have "fs w2 ''data.zip'' = Some (File ''PKok'')" by simp
  from example_remove[OF this]
  obtain w3 where r: "os_remove example_env ''data.zip'' w2 = (Inr (), w3)" by blast
  obtain res w' where run: "download_and_extract example_env ''h/data.zip'' None ''out'' True False
      example_world = (res, w')" by force
  note t = download_and_extract_stage_order[OF run]
  from d u r have prem: "download_file example_env ''h/data.zip'' None False example_world
        = (Inr ''data.zip'', w1)
      \<and> unzip_file example_env ''data.zip'' ''out'' w1 = (Inr ''out'', w2)
      \<and> (True \<longrightarrow> (\<exists>w3. os_remove example_env ''data.zip'' w2 = (Inr (), w3)))"
    by blast
  from t[THEN conjunct2, THEN conjunct2, THEN conjunct2, THEN conjunct1, rule_format, OF prem]
  have a: "res = Inr (''data.zip'', ''out'')"
    "stages example_world w' = [HttpGet ''h/data.zip'', ZipOpen ''data.zip'', Remove ''data.zip'']"
    by simp_all
  from t[THEN conjunct2, THEN conjunct2, THEN conjunct2, THEN conjunct2, rule_format, OF a(1)]
  have b: "\<exists>w1 w2 w3. download_file example_env ''h/data.zip'' None False example_world
                = (Inr ''data.zip'', w1)
              \<and> unzip_file example_env ''data.zip'' ''out'' w1 = (Inr ''out'', w2)
              \<and> os_remove example_env ''data.zip'' w2 = (Inr (), w3)"
    by auto
  from run a b show "\<exists>w'. download_and_extract example_env ''h/data.zip'' None ''out'' True False
        example_world = (Inr (''data.zip'', ''out''), w')
      \<and> stages example_world w'
          = [HttpGet ''h/data.zip'', ZipOpen ''data.zip'', Remove ''data.zip'']
      \<and> (\<exists>w1 w2 w3. download_file example_env ''h/data.zip'' None False example_world
                = (Inr ''data.zip'', w1)
              \<and> unzip_file example_env ''data.zip'' ''out'' w1 = (Inr ''out'', w2)
              \<and> os_remove example_env ''data.zip'' w2 = (Inr (), w3))"
    by simp
next
  obtain v1 where g: "download_file example_env ''h/gone.zip'' None False example_world
      = (Inl (HTTPError 404), v1)" and gf: "fs v1 = fs example_world"
    using example_gone by blast
  obtain res w' where run: "download_and_extract example_env ''h/gone.zip'' None ''out'' True
      False example_world = (res, w')" by force
  note t = download_and_extract_stage_order[OF run]
  from t[THEN conjunct1, rule_format, OF g] gf
  have "res = Inl (HTTPError 404)" "stages example_world w' = [HttpGet ''h/gone.zip'']"
    "fs w' = fs example_world"
    by simp_all
  with run show "\<exists>w'. download_and_extract example_env ''h/gone.zip'' None ''out'' True False
        example_world = (Inl (HTTPError 404), w')
      \<and> stages example_world w' = [HttpGet ''h/gone.zip'']
      \<and> fs w' = fs example_world"
    by simp
next
  obtain w1 where d: "download_file example_env ''h/same.zip'' None False example_world
      = (Inr ''same.zip'', w1)"
    and f1: "fs w1 = (fs example_world)(''same.zip'' \<mapsto> File [])"
    using example_same by blast
  from f1 have "fs w1 ''same.zip'' = Some (File [])" by simp
  from example_unzip_empty[OF this]
  obtain w2 where u: "unzip_file example_env ''same.zip'' ''out'' w1 = (Inl BadZipFile, w2)"
    by blast
  obtain res w' where run: "download_and_extract example_env ''h/same.zip'' None ''out'' True
      False example_world = (res, w')" by force
  note t = download_and_extract_stage_order[OF run]
  from t[THEN conjunct2, THEN conjunct1, rule_format, OF conjI[OF d u]]
  have "res = Inl BadZipFile"
    "stages example_world w' = [HttpGet ''h/same.zip'', ZipOpen ''same.zip'']"
    by simp_all
  with run show "\<exists>w'. download_and_extract example_env ''h/same.zip'' None ''out'' True False
        example_world = (Inl BadZipFile, w')
      \<and> stages example_world w' = [HttpGet ''h/same.zip'', ZipOpen ''same.zip'']"
    by simp
next
  obtain w1 where d: "download_file example_env ''h/kept.zip'' None False example_world
      = (Inr ''kept.zip'', w1)"
    and f1: "fs w1 = (fs example_world)(''kept.zip'' \<mapsto> File ''PKok'')"
    using example_kept by blast
  from f1 have "fs w1 ''kept.zip'' = Some (File ''PKok'')" "''kept.zip'' \<noteq> ''out/a.txt''"
    "''kept.zip'' \<noteq> ''out/sub/b.txt''"
    "fs w1 ''out/a.txt'' \<noteq> Some Dir" "fs w1 ''out/sub/b.txt'' \<noteq> Some Dir"
    by (simp_all add: example_world_def)
  from example_unzip[OF this]
  obtain w2 where u: "unzip_file example_env ''kept.zip'' ''out'' w1 = (Inr ''out'', w2)"
    and f2: "fs w2 = (fs w1)(''out/a.txt'' \<mapsto> File ''A'', ''out/sub/b.txt'' \<mapsto> File ''B'')"
    by blast
  from f1 f2 have k: "fs w2 ''kept.zip'' = Some (File ''PKok'')" by simp
  from example_remove_denied[OF this]
  obtain w3 where r: "os_remove example_env ''kept.zip'' w2
      = (Inl (OSError EACCES ''kept.zip''), w3)" by blast
  obtain res w' where run: "download_and_extract example_env ''h/kept.zip'' None ''out'' True
      False example_world = (res, w')" by force
  note t = download_and_extract_stage_order[OF run]
  from d u r have prem: "download_file example_env ''h/kept.zip'' None False example_world
        = (Inr ''kept.zip'', w1)
      \<and> unzip_file example_env ''kept.zip'' ''out'' w1 = (Inr ''out'', w2)
      \<and> True \<and> os_remove example_env ''kept.zip'' w2 = (Inl (OSError EACCES ''kept.zip''), w3)"
    by blast
  from t[THEN conjunct2, THEN conjunct2, THEN conjunct1, rule_format, OF prem] k
  have "res = Inl (OSError EACCES ''kept.zip'')"
    "stages example_world w'
       = [HttpGet ''h/kept.zip'', ZipOpen ''kept.zip'', Remove ''kept.zip'']"
    "fs w' ''kept.zip'' = Some (File ''PKok'')"
    by simp_all
  with run show "\<exists>w'. download_and_extract example_env ''h/kept.zip'' None ''out'' True False
        example_world = (Inl (OSError EACCES ''kept.zip''), w')
      \<and> stages example_world w'
          = [HttpGet ''h/kept.zip'', ZipOpen ''kept.zip'', Remove ''kept.zip'']
      \<and> fs w' ''kept.zip'' = Some (File ''PKok'')"
    by simp
qed

lemma no_remove_stages:
  assumes "stages w w' = xs" "\<forall>p. Remove p \<notin> set xs"
  shows "\<forall>p. Remove p \<notin> set (new_events w w')"
  using assms remove_in_stages[of _ w w'] by simp

lemma efl_unzip_fail:
  assumes "extract_from_location E zp et c w = (res, w')"
    and "unzip_file E zp et w = (Inl e, w1)"
  shows "res = Inl e \<and> (\<forall>p. Remove p \<notin> set (new_events w w')) \<and> fs w' = fs w1
    \<and> dom (fs w) \<subseteq> dom (fs w')"
proof -
  from extract_from_location_summary[OF assms(1)] assms(2)
  have a: "res = Inl e" "stages w w' = (if fs w zp = None then [] else [ZipOpen zp])"
    "fs w' = fs w1" by simp_all
  from a(2) have "\<forall>p. Remove p \<notin> set (new_events w w')"
    by (rule no_remove_stages) simp
  moreover from unzip_file_effect(3)[OF assms(2)] a(3) have "dom (fs w) \<subseteq> dom (fs w')" by simp
  ultimately show ?thesis using a by simp
qed

lemma efl_unzip_ok:
  assumes "extract_from_location E zp et True w = (res, w')"
    and "unzip_file E zp et w = (Inr d, w1)"
  shows "stages w w' = [ZipOpen zp, Remove zp]
    \<and> (\<forall>e w2. os_remove E zp w1 = (Inl e, w2) \<longrightarrow> res = Inl e \<and> fs w' = fs w1)
    \<and> (\<forall>w2. os_remove E zp w1 = (Inr (), w2) \<longrightarrow> res = Inr d \<and> fs w' = (fs w1)(zp := None))"
proof -
  obtain rr w2 where r: "os_remove E zp w1 = (rr, w2)" by force
  show ?thesis
  proof (cases rr)
    case (Inl e)
    with extract_from_location_summary[OF assms(1)] assms(2) r show ?thesis by auto
  next
    case (Inr u)
    with extract_from_location_summary[OF assms(1)] assms(2) r show ?thesis by auto
  qed
qed

lemma efl_returns:
  assumes "extract_from_location E zp et c w = (res, w')" and "res = Inr d"
  shows "d = et \<and> fs w zp \<noteq> None \<and> (if c then fs w' zp = None else fs w' zp \<noteq> None)
    \<and> (\<not> c \<longrightarrow> (\<forall>p. Remove p \<notin> set (new_events w w')) \<and> dom (fs w) \<subseteq> dom (fs w'))"
  using assms(1)
proof (cases rule: extract_from_location_cases)
  case (unzip_fail e w1)
  with assms(2) show ?thesis by simp
next
  case (cleanup_fail d w1 e w2)
  with assms(2) show ?thesis by simp
next
  case (ok d' w1 u)
  from ok(3) assms(2) have dd: "d' = d" by simp
  note z = unzip_file_effect[OF ok(1)]
  from z(4) dd have ex: "d = et" "fs w zp \<noteq> None" by simp_all
  show ?thesis
  proof (cases c)
    case True
    with cleanup_step_effect(3)[OF ok(2)] ex show ?thesis by simp
  next
    case False
    with ok(2) have w: "w' = w1" by (simp add: cleanup_step_False)
    from z(2) w have "stages w w' = (if fs w zp = None then [] else [ZipOpen zp])" by simp
    then have "\<forall>p. Remove p \<notin> set (new_events w w')" by (rule no_remove_stages) simp
    moreover from z(3) w have s: "dom (fs w) \<subseteq> dom (fs w')" by simp
    moreover from s ex(2) have "fs w' zp \<noteq> None" by auto
    ultimately show ?thesis using False ex by simp
  qed
qed

lemma dae_no_remove:
  assumes "download_and_extract E url filename et c sp w = (res, w')"
    and "download_file E url filename sp w = (Inl e, w1)"
  shows "\<forall>p. Remove p \<notin> set (new_events w w')"
proof -
  from dae_download_fail[OF assms] have "stages w w' = [HttpGet url]" by simp
  then show ?thesis by (rule no_remove_stages) simp
qed

lemma dae_unzip_fail_kept:
  assumes "download_and_extract E url filename et c sp w = (res, w')"
    and "download_file E url filename sp w = (Inr f, w1)"
    and "unzip_file E f et w1 = (Inl e, w2)"
  shows "(\<forall>p. Remove p \<notin> set (new_events w w')) \<and> fs w' f \<noteq> None
    \<and> dom (fs w) \<subseteq> dom (fs w')"
proof -
  from dae_unzip_fail[OF assms] have a: "stages w w' = [HttpGet url, ZipOpen f]" "fs w' = fs w2"
    by simp_all
  from a(1) have "\<forall>p. Remove p \<notin> set (new_events w w')" by (rule no_remove_stages) simp
  moreover from download_and_extract_summary[OF assms(1)] assms(2)
  have "fs w1 f \<noteq> None" by auto
  with unzip_file_effect(3)[OF assms(3)] a(2) have "fs w' f \<noteq> None" by auto
  moreover from download_file_keeps[OF assms(2)] unzip_file_effect(3)[OF assms(3)] a(2)
  have "dom (fs w) \<subseteq> dom (fs w')" by auto
  ultimately show ?thesis by simp
qed

lemma dae_unzip_ok:
  assumes "download_and_extract E url filename et True sp w = (res, w')"
    and "download_file E url filename sp w = (Inr f, w1)"
    and "unzip_file E f et w1 = (Inr d, w2)"
  shows "stages w w' = [HttpGet url, ZipOpen f, Remove f]
    \<and> (\<forall>e w3. os_remove E f w2 = (Inl e, w3) \<longrightarrow> res = Inl e \<and> fs w' = fs w2)
    \<and> (\<forall>w3. os_remove E f w2 = (Inr (), w3) \<longrightarrow>
          res = Inr (f, d) \<and> fs w' = (fs w2)(f := None))"
proof -
  obtain rr w3 where r: "os_remove E f w2 = (rr, w3)" by force
  show ?thesis
  proof (cases rr)
    case (Inl e)
    with dae_remove_fail[OF assms TrueI] r show ?thesis by auto
  next
    case (Inr u)
    with r have "True \<longrightarrow> (\<exists>w3. os_remove E f w2 = (Inr (), w3))" by simp
    from dae_ok[OF assms this] r Inr show ?thesis by auto
  qed
qed

lemma dae_result:
  assumes "download_and_extract E url filename et c sp w = (res, w')"
    and "res = Inr (f, d)"
  shows "f = local_filename url filename \<and> d = et
    \<and> (if c then fs w' f = None else fs w' f \<noteq> None)
    \<and> (\<not> c \<longrightarrow> (\<forall>p. Remove p \<notin> set (new_events w w')) \<and> dom (fs w) \<subseteq> dom (fs w'))"
proof -
  from dae_returns[OF assms] obtain w1 w2 where
    dl: "download_file E url filename sp w = (Inr f, w1)"
    and u: "unzip_file E f et w1 = (Inr d, w2)"
    and r: "c \<longrightarrow> (\<exists>w3. os_remove E f w2 = (Inr (), w3))" by auto
  note o = dae_ok[OF assms(1) dl u r]
  from download_and_extract_summary[OF assms(1)] dl u have k: "fs w2 f \<noteq> None" by auto
  show ?thesis
  proof (cases c)
    case True
    with o show ?thesis by simp
  next
    case False
    with o have s: "stages w w' = [HttpGet url, ZipOpen f]" "fs w' = fs w2" by simp_all
    from s(1) have "\<forall>p. Remove p \<notin> set (new_events w w')" by (rule no_remove_stages) simp
    moreover from download_file_keeps[OF dl] unzip_file_effect(3)[OF u] s(2)
    have "dom (fs w) \<subseteq> dom (fs w')" by auto
    ultimately show ?thesis using o k s(2) False by simp
  qed
qed

lemma dae_remove_fail_kept:
  assumes "download_and_extract E url filename et c sp w = (res, w')"
    and "download_file E url filename sp w = (Inr f, w1)"
    and "unzip_file E f et w1 = (Inr d, w2)"
  shows "dom (fs w) \<subseteq> dom (fs w2)" "fs w2 f \<noteq> None"
proof -
  from download_file_keeps[OF assms(2)] unzip_file_effect(3)[OF assms(3)]
  show "dom (fs w) \<subseteq> dom (fs w2)" by auto
  from download_and_extract_summary[OF assms(1)] assms(2,3) show "fs w2 f \<noteq> None" by auto
qed

lemma example_unzip_rejected:
  assumes "fs w1 zp = Some (File b)" "zip_parse example_env b = Inl e"
  shows "\<exists>w2. unzip_file example_env zp ''out'' w1 = (Inl e, w2) \<and> fs w2 = fs w1"
  using assms
  by (simp add: unzip_file_def os_path_exists_def unzip_body_def zip_open_def Let_def)

lemma example_remove_ok:
  assumes "fs w2 p = Some (File b)" "p \<noteq> ''kept.zip''"
  shows "\<exists>w3. os_remove example_env p w2 = (Inr (), w3)"
  using assms by (simp add: os_remove_def Let_def)

lemma efl_no_cleanup:
  assumes "extract_from_location E zp et False w = (res, w')"
  shows "(\<forall>p. Remove p \<notin> set (new_events w w')) \<and> dom (fs w) \<subseteq> dom (fs w')
    \<and> (\<forall>d. res = Inr d \<longrightarrow> fs w' zp \<noteq> None)"
proof -
  obtain ru w1 where u: "unzip_file E zp et w = (ru, w1)" by force
  show ?thesis
  proof (cases ru)
    case (Inl e)
    with u have "unzip_file E zp et w = (Inl e, w1)" by simp
    from efl_unzip_fail[OF assms this] show ?thesis by auto
  next
    case (Inr d)
    with extract_from_location_summary[OF assms] u have r: "res = Inr d" by simp
    from efl_returns[OF assms r] r show ?thesis by simp
  qed
qed

lemma dae_no_cleanup:
  assumes "download_and_extract E url filename et False sp w = (r, w')"
  shows "(\<forall>p. Remove p \<notin> set (new_events w w')) \<and> dom (fs w) \<subseteq> dom (fs w')
    \<and> (\<forall>f d. r = Inr (f, d) \<longrightarrow> f = local_filename url filename \<and> fs w' f \<noteq> None)"
proof -
  obtain rd w1 where dl: "download_file E url filename sp w = (rd, w1)" by force
  show ?thesis
  proof (cases rd)
    case (Inl e)
    with dl have d: "download_file E url filename sp w = (Inl e, w1)" by simp
    from dae_download_fail[OF assms d] download_file_keeps[OF d]
    have "r = Inl e" "dom (fs w) \<subseteq> dom (fs w')" by simp_all
    with dae_no_remove[OF assms d] show ?thesis by simp
  next
    case (Inr f)
    with dl have d: "download_file E url filename sp w = (Inr f, w1)" by simp
    obtain ru w2 where u: "unzip_file E f et w1 = (ru, w2)" by force
    show ?thesis
    proof (cases ru)
      case (Inl e)
      with u have u': "unzip_file E f et w1 = (Inl e, w2)" by simp
      from dae_unzip_fail[OF assms d u'] dae_unzip_fail_kept[OF assms d u']
      show ?thesis by simp
    next
      case dir: (Inr dir)
      with u have u': "unzip_file E f et w1 = (Inr dir, w2)" by simp
      have "False \<longrightarrow> (\<exists>w3. os_remove E f w2 = (Inr (), w3))" by simp
      from dae_ok[OF assms d u' this] have r: "r = Inr (f, dir)" by simp
      from dae_result[OF assms r] r show ?thesis by auto
    qed
  qed
qed

text \<open>
  C2: with cleanup requested, \<^verbatim>\<open>extract_from_location\<close> and \<^verbatim>\<open>download_and_extract\<close>
  call \<^verbatim>\<open>os.remove\<close> on the archive only after \<^verbatim>\<open>unzip_file\<close> has returned. When
  extraction (or, in \<^verbatim>\<open>download_and_extract\<close>, the download before it) fails, the call
  fails with the same exception, \<^verbatim>\<open>os.remove\<close> is not called on any path, and the archive
  that was there is still there. When extraction succeeds the deletion follows the
  opening of the archive; if the deletion fails, its exception is the outcome of the call
  and the file system is as extraction left it; if it succeeds, the call returns and the
  archive is absent from the file system.
\<close>

theorem cleanup_after_extraction:
  "(extract_from_location E zp et True w = (res, w') \<and> unzip_file E zp et w = (Inl e, w1) \<longrightarrow>
      res = Inl e \<and> (\<forall>p. Remove p \<notin> set (new_events w w')) \<and> fs w' = fs w1
      \<and> (fs w zp \<noteq> None \<longrightarrow> fs w' zp \<noteq> None))
   \<and> (extract_from_location E zp et True w = (res, w') \<and> unzip_file E zp et w = (Inr d, w1) \<longrightarrow>
      stages w w' = [ZipOpen zp, Remove zp]
      \<and> (\<forall>e w2. os_remove E zp w1 = (Inl e, w2) \<longrightarrow> res = Inl e \<and> fs w' = fs w1)
      \<and> (\<forall>w2. os_remove E zp w1 = (Inr (), w2) \<longrightarrow>
            res = Inr d \<and> fs w' = (fs w1)(zp := None)))
   \<and> (extract_from_location E zp et True w = (res, w') \<and> res = Inr d \<longrightarrow> fs w' zp = None)
   \<and> (download_and_extract E url filename et True sp w = (r, w')
        \<and> download_file E url filename sp w = (Inl e, w1) \<longrightarrow>
      r = Inl e \<and> (\<forall>p. Remove p \<notin> set (new_events w w')))
   \<and> (download_and_extract E url filename et True sp w = (r, w')
        \<and> download_file E url filename sp w = (Inr f, w1)
        \<and> unzip_file E f et w1 = (Inl e, w2) \<longrightarrow>
      r = Inl e \<and> (\<forall>p. Remove p \<notin> set (new_events w w')) \<and> fs w' = fs w2
      \<and> fs w' f \<noteq> None)
   \<and> (download_and_extract E url filename et True sp w = (r, w')
        \<and> download_file E url filename sp w = (Inr f, w1)
        \<and> unzip_file E f et w1 = (Inr d, w2) \<longrightarrow>
      stages w w' = [HttpGet url, ZipOpen f, Remove f]
      \<and> (\<forall>e w3. os_remove E f w2 = (Inl e, w3) \<longrightarrow> r = Inl e \<and> fs w' = fs w2)
      \<and> (\<forall>w3. os_remove E f w2 = (Inr (), w3) \<longrightarrow>
            r = Inr (f, d) \<and> fs w' = (fs w2)(f := None)))
   \<and> (download_and_extract E url filename et True sp w = (r, w') \<and> r = Inr (f, d) \<longrightarrow>
      f = local_filename url filename \<and> fs w' f = None)"
proof (intro conjI impI; elim conjE)
  assume run: "extract_from_location E zp et True w = (res, w')"
    and u: "unzip_file E zp et w = (Inl e, w1)"
  note a = efl_unzip_fail[OF run u]
  from a show "res = Inl e" by simp
  from a show "\<forall>p. Remove p \<notin> set (new_events w w')" by simp
  from a show "fs w' = fs w1" by simp
  assume "fs w zp \<noteq> None"
  with a show "fs w' zp \<noteq> None" by auto
next
  assume run: "extract_from_location E zp et True w = (res, w')"
    and u: "unzip_file E zp et w = (Inr d, w1)"
  note a = efl_unzip_ok[OF run u]
  from a show "stages w w' = [ZipOpen zp, Remove zp]" by simp
  from a show "\<forall>e w2. os_remove E zp w1 = (Inl e, w2) \<longrightarrow> res = Inl e \<and> fs w' = fs w1"
    by simp
  from a show "\<forall>w2. os_remove E zp w1 = (Inr (), w2) \<longrightarrow>
      res = Inr d \<and> fs w' = (fs w1)(zp := None)" by simp
next
  assume run: "extract_from_location E zp et True w = (res, w')" and r: "res = Inr d"
  from efl_returns[OF run r] show "fs w' zp = None" by simp
next
  assume run: "download_and_extract E url filename et True sp w = (r, w')"
    and dl: "download_file E url filename sp w = (Inl e, w1)"
  from dae_download_fail[OF run dl] show "r = Inl e" by simp
  from dae_no_remove[OF run dl] show "\<forall>p. Remove p \<notin> set (new_events w w')" .
next
  assume run: "download_and_extract E url filename et True sp w = (r, w')"
    and dl: "download_file E url filename sp w = (Inr f, w1)"
    and u: "unzip_file E f et w1 = (Inl e, w2)"
  note a = dae_unzip_fail[OF run dl u]
  note b = dae_unzip_fail_kept[OF run dl u]
  from a show "r = Inl e" by simp
  from b show "\<forall>p. Remove p \<notin> set (new_events w w')" by simp
  from a show "fs w' = fs w2" by simp
  from b show "fs w' f \<noteq> None" by simp
next
  assume run: "download_and_extract E url filename et True sp w = (r, w')"
    and dl: "download_file E url filename sp w = (Inr f, w1)"
    and u: "unzip_file E f et w1 = (Inr d, w2)"
  note a = dae_unzip_ok[OF run dl u]
  from a show "stages w w' = [HttpGet url, ZipOpen f, Remove f]" by simp
  from a show "\<forall>e w3. os_remove E f w2 = (Inl e, w3) \<longrightarrow> r = Inl e \<and> fs w' = fs w2"
    by simp
  from a show "\<forall>w3. os_remove E f w2 = (Inr (), w3) \<longrightarrow>
      r = Inr (f, d) \<and> fs w' = (fs w2)(f := None)" by simp
next
  assume run: "download_and_extract E url filename et True sp w = (r, w')"
    and r: "r = Inr (f, d)"
  note a = dae_result[OF run r]
  from a show "f = local_filename url filename" by simp
  from a show "fs w' f = None" by auto
qed

theorem cleanup_after_extraction_witness:
  "(\<exists>w'. extract_from_location example_env ''junk.zip'' ''out'' True example_world
            = (Inl BadZipFile, w')
        \<and> Remove ''junk.zip'' \<notin> set (new_events example_world w')
        \<and> fs w' ''junk.zip'' = Some (File ''hello''))
   \<and> (\<exists>w'. extract_from_location example_env ''data.zip'' ''out'' True example_world
            = (Inr ''out'', w')
        \<and> stages example_world w' = [ZipOpen ''data.zip'', Remove ''data.zip'']
        \<and> fs w' ''data.zip'' = None \<and> fs w' ''out/a.txt'' = Some (File ''A''))
   \<and> (\<exists>w'. extract_from_location example_env ''kept.zip'' ''out'' True
              (example_world\<lparr>fs := (fs example_world)(''kept.zip'' \<mapsto> File ''PKok'')\<rparr>)
            = (Inl (OSError EACCES ''kept.zip''), w')
        \<and> fs w' ''kept.zip'' = Some (File ''PKok''))
   \<and> (\<exists>w'. download_and_extract example_env ''h/gone.zip'' None ''out'' True False example_world
            = (Inl (HTTPError 404), w')
        \<and> Remove ''gone.zip'' \<notin> set (new_events example_world w'))
   \<and> (\<exists>w'. download_and_extract example_env ''h/same.zip'' None ''out'' True False example_world
            = (Inl BadZipFile, w')
        \<and> Remove ''same.zip'' \<notin> set (new_events example_world w')
        \<and> fs w' ''same.zip'' = Some (File []))
   \<and> (\<exists>w'. download_and_extract example_env ''h/kept.zip'' None ''out'' True False example_world
            = (Inl (OSError EACCES ''kept.zip''), w')
        \<and> fs w' ''kept.zip'' = Some (File ''PKok''))
   \<and> (\<exists>w'. download_and_extract example_env ''h/data.zip'' None ''out'' True False example_world
            = (Inr (''data.zip'', ''out''), w')
        \<and> fs w' ''data.zip'' = None)"
proof (intro conjI)
  let ?w = example_world
  have "fs ?w ''junk.zip'' = Some (File ''hello'')" "zip_parse example_env ''hello'' = Inl BadZipFile"
    by simp_all
  from example_unzip_rejected[OF this]
  obtain w1 where u: "unzip_file example_env ''junk.zip'' ''out'' ?w = (Inl BadZipFile, w1)"
    and f1: "fs w1 = fs ?w" by blast
  obtain res w' where run: "extract_from_location example_env ''junk.zip'' ''out'' True ?w
      = (res, w')" by force
  from cleanup_after_extraction[THEN conjunct1, rule_format, OF conjI[OF run u]] f1
  have "res = Inl BadZipFile" "Remove ''junk.zip'' \<notin> set (new_events ?w w')"
    "fs w' ''junk.zip'' = Some (File ''hello'')"
    by simp_all
  with run show "\<exists>w'. extract_from_location example_env ''junk.zip'' ''out'' True example_world
            = (Inl BadZipFile, w')
        \<and> Remove ''junk.zip'' \<notin> set (new_events example_world w')
        \<and> fs w' ''junk.zip'' = Some (File ''hello'')"
    by simp
next
  let ?w = example_world
  have "fs ?w ''data.zip'' = Some (File ''PKok'')" "''data.zip'' \<noteq> ''out/a.txt''"
    "''data.zip'' \<noteq> ''out/sub/b.txt''"
    "fs ?w ''out/a.txt'' \<noteq> Some Dir" "fs ?w ''out/sub/b.txt'' \<noteq> Some Dir"
    by (simp_all add: example_world_def)
  from example_unzip[OF this]
  obtain w1 where u: "unzip_file example_env ''data.zip'' ''out'' ?w = (Inr ''out'', w1)"
    and f1: "fs w1 = (fs ?w)(''out/a.txt'' \<mapsto> File ''A'', ''out/sub/b.txt'' \<mapsto> File ''B'')"
    by blast
  from f1 have "fs w1 ''data.zip'' = Some (File ''PKok'')" by simp
  from example_remove[OF this]
  obtain w2 where r: "os_remove example_env ''data.zip'' w1 = (Inr (), w2)" by blast
  obtain res w' where run: "extract_from_location example_env ''data.zip'' ''out'' True ?w
      = (res, w')" by force
  note t = cleanup_after_extraction[THEN conjunct2, THEN conjunct1, rule_format,
      OF conjI[OF run u]]
  from t have s: "stages ?w w' = [ZipOpen ''data.zip'', Remove ''data.zip'']" by simp
  from t[THEN conjunct2, THEN conjunct2, rule_format, OF r] f1
  have a: "res = Inr ''out''" "fs w' ''out/a.txt'' = Some (File ''A'')" by simp_all
  from cleanup_after_extraction[THEN conjunct2, THEN conjunct2, THEN conjunct1, rule_format,
      OF conjI[OF run a(1)]]
  have "fs w' ''data.zip'' = None" .
  with run s a show "\<exists>w'. extract_from_location example_env ''data.zip'' ''out'' True
        example_world = (Inr ''out'', w')
        \<and> stages example_world w' = [ZipOpen ''data.zip'', Remove ''data.zip'']
        \<and> fs w' ''data.zip'' = None \<and> fs w' ''out/a.txt'' = Some (File ''A'')"
    by simp
next
  let ?w = "example_world\<lparr>fs := (fs example_world)(''kept.zip'' \<mapsto> File ''PKok'')\<rparr>"
  have "fs ?w ''kept.zip'' = Some (File ''PKok'')" "''kept.zip'' \<noteq> ''out/a.txt''"
    "''kept.zip'' \<noteq> ''out/sub/b.txt''"
    "fs ?w ''out/a.txt'' \<noteq> Some Dir" "fs ?w ''out/sub/b.txt'' \<noteq> Some Dir"
    by (simp_all add: example_world_def)
  from example_unzip[OF this]
  obtain w1 where u: "unzip_file example_env ''kept.zip'' ''out'' ?w = (Inr ''out'', w1)"
    and f1: "fs w1 = (fs ?w)(''out/a.txt'' \<mapsto> File ''A'', ''out/sub/b.txt'' \<mapsto> File ''B'')"
    by blast
  from f1 have k: "fs w1 ''kept.zip'' = Some (File ''PKok'')" by simp
  from example_remove_denied[OF this]
  obtain w2 where r: "os_remove example_env ''kept.zip'' w1
      = (Inl (OSError EACCES ''kept.zip''), w2)" by blast
  obtain res w' where run: "extract_from_location example_env ''kept.zip'' ''out'' True ?w
      = (res, w')" by force
  note t = cleanup_after_extraction[THEN conjunct2, THEN conjunct1, rule_format,
      OF conjI[OF run u]]
  from t[THEN conjunct2, THEN conjunct1, rule_format, OF r] k
  have "res = Inl (OSError EACCES ''kept.zip'')" "fs w' ''kept.zip'' = Some (File ''PKok'')"
    by simp_all
  with run show "\<exists>w'. extract_from_location example_env ''kept.zip'' ''out'' True
              (example_world\<lparr>fs := (fs example_world)(''kept.zip'' \<mapsto> File ''PKok'')\<rparr>)
            = (Inl (OSError EACCES ''kept.zip''), w')
        \<and> fs w' ''kept.zip'' = Some (File ''PKok'')"
    by simp
next
  obtain v1 where g: "download_file example_env ''h/gone.zip'' None False example_world
      = (Inl (HTTPError 404), v1)"
    using example_gone by blast
  obtain r w' where run: "download_and_extract example_env ''h/gone.zip'' None ''out'' True
      False example_world = (r, w')" by force
  from cleanup_after_extraction[THEN conjunct2, THEN conjunct2, THEN conjunct2, THEN conjunct1,
      rule_format, OF conjI[OF run g]]
  have "r = Inl (HTTPError 404)" "Remove ''gone.zip'' \<notin> set (new_events example_world w')"
    by simp_all
  with run show "\<exists>w'. download_and_extract example_env ''h/gone.zip'' None ''out'' True False
        example_world = (Inl (HTTPError 404), w')
        \<and> Remove ''gone.zip'' \<notin> set (new_events example_world w')"
    by simp
next
  obtain w1 where d: "download_file example_env ''h/same.zip'' None False example_world
      = (Inr ''same.zip'', w1)"
    and f1: "fs w1 = (fs example_world)(''same.zip'' \<mapsto> File [])"
    using example_same by blast
  from f1 have "fs w1 ''same.zip'' = Some (File [])" by simp
  from example_unzip_empty[OF this]
  obtain w2 where u: "unzip_file example_env ''same.zip'' ''out'' w1 = (Inl BadZipFile, w2)"
    and f2: "fs w2 = fs w1"
    by blast
  obtain r w' where run: "download_and_extract example_env ''h/same.zip'' None ''out'' True
      False example_world = (r, w')" by force
  from cleanup_after_extraction[THEN conjunct2, THEN conjunct2, THEN conjunct2, THEN conjunct2,
      THEN conjunct1, rule_format, OF conjI[OF run conjI[OF d u]]] f1 f2
  have "r = Inl BadZipFile" "Remove ''same.zip'' \<notin> set (new_events example_world w')"
    "fs w' ''same.zip'' = Some (File [])"
    by simp_all
  with run show "\<exists>w'. download_and_extract example_env ''h/same.zip'' None ''out'' True False
        example_world = (Inl BadZipFile, w')
        \<and> Remove ''same.zip'' \<notin> set (new_events example_world w')
        \<and> fs w' ''same.zip'' = Some (File [])"
    by simp
next
  obtain w1 where d: "download_file example_env ''h/kept.zip'' None False example_world
      = (Inr ''kept.zip'', w1)"
    and f1: "fs w1 = (fs example_world)(''kept.zip'' \<mapsto> File ''PKok'')"
    using example_kept by blast
  from f1 have "fs w1 ''kept.zip'' = Some (File ''PKok'')" "''kept.zip'' \<noteq> ''out/a.txt''"
    "''kept.zip'' \<noteq> ''out/sub/b.txt''"
    "fs w1 ''out/a.txt'' \<noteq> Some Dir" "fs w1 ''out/sub/b.txt'' \<noteq> Some Dir"
    by (simp_all add: example_world_def)
  from example_unzip[OF this]
  obtain w2 where u: "unzip_file example_env ''kept.zip'' ''out'' w1 = (Inr ''out'', w2)"
    and f2: "fs w2 = (fs w1)(''out/a.txt'' \<mapsto> File ''A'', ''out/sub/b.txt'' \<mapsto> File ''B'')"
    by blast
  from f1 f2 have k: "fs w2 ''kept.zip'' = Some (File ''PKok'')" by simp
  from example_remove_denied[OF this]
  obtain w3 where r: "os_remove example_env ''kept.zip'' w2
      = (Inl (OSError EACCES ''kept.zip''), w3)" by blast
  obtain res w' where run: "download_and_extract example_env ''h/kept.zip'' None ''out'' True
      False example_world = (res, w')" by force
  note t = cleanup_after_extraction[THEN conjunct2, THEN conjunct2, THEN conjunct2,
      THEN conjunct2, THEN conjunct2, THEN conjunct1, rule_format, OF conjI[OF run conjI[OF d u]]]
  from t[THEN conjunct2, THEN conjunct1, rule_format, OF r] k
  have "res = Inl (OSError EACCES ''kept.zip'')" "fs w' ''kept.zip'' = Some (File ''PKok'')"
    by simp_all
  with run show "\<exists>w'. download_and_extract example_env ''h/kept.zip'' None ''out'' True False
        example_world = (Inl (OSError EACCES ''kept.zip''), w')
        \<and> fs w' ''kept.zip'' = Some (File ''PKok'')"
    by simp
next
  obtain w1 where d: "download_file example_env ''h/data.zip'' None False example_world
      = (Inr ''data.zip'', w1)"
    and f1: "fs w1 = (fs example_world)(''data.zip'' \<mapsto> File ''PKok'')"
    using example_download by blast
  from f1 have "fs w1 ''data.zip'' = Some (File ''PKok'')" "''data.zip'' \<noteq> ''out/a.txt''"
    "''data.zip'' \<noteq> ''out/sub/b.txt''"
    "fs w1 ''out/a.txt'' \<noteq> Some Dir" "fs w1 ''out/sub/b.txt'' \<noteq> Some Dir"
    by (simp_all add: example_world_def)
  from example_unzip[OF this]
  obtain w2 where u: "unzip_file example_env ''data.zip'' ''out'' w1 = (Inr ''out'', w2)"
    and f2: "fs w2 = (fs w1)(''out/a.txt'' \<mapsto> File ''A'', ''out/sub/b.txt'' \<mapsto> File ''B'')"
    by blast
  from f1 f2 have "fs w2 ''data.zip'' = Some (File ''PKok'')" by simp
  from example_remove[OF this]
  obtain w3 where r: "os_remove example_env ''data.zip'' w2 = (Inr (), w3)" by blast
  obtain res w' where run: "download_and_extract example_env ''h/data.zip'' None ''out'' True False
      example_world = (res, w')" by force
  note t = cleanup_after_extraction[THEN conjunct2, THEN conjunct2, THEN conjunct2,
      THEN conjunct2, THEN conjunct2, THEN conjunct1, rule_format, OF conjI[OF run conjI[OF d u]]]
  from t[THEN conjunct2, THEN conjunct2, rule_format, OF r]
  have a: "res = Inr (''data.zip'', ''out'')" by simp
  from cleanup_after_extraction[THEN conjunct2, THEN conjunct2, THEN conjunct2,
      THEN conjunct2, THEN conjunct2, THEN conjunct2, rule_format, OF conjI[OF run a]]
  have "fs w' ''data.zip'' = None" by simp
  with run a show "\<exists>w'. download_and_extract example_env ''h/data.zip'' None ''out'' True False
        example_world = (Inr (''data.zip'', ''out''), w')
        \<and> fs w' ''data.zip'' = None"
    by simp
qed

text \<open>
  C9: with \<open>cleanup = False\<close> neither \<^verbatim>\<open>extract_from_location\<close> nor
  \<^verbatim>\<open>download_and_extract\<close> calls \<^verbatim>\<open>os.remove\<close>, on any path and whatever the outcome of
  the call; no path that was on disk before the call is missing after it; and after a
  successful run the archive (the file given, or the file just downloaded) is on disk.
\<close>

theorem no_cleanup_keeps_archive:
  "(extract_from_location E zp et False w = (res, w') \<longrightarrow>
      (\<forall>p. Remove p \<notin> set (new_events w w')) \<and> dom (fs w) \<subseteq> dom (fs w')
      \<and> (\<forall>d. res = Inr d \<longrightarrow> fs w' zp \<noteq> None))
   \<and> (download_and_extract E url filename et False sp w = (r, w') \<longrightarrow>
      (\<forall>p. Remove p \<notin> set (new_events w w')) \<and> dom (fs w) \<subseteq> dom (fs w')
      \<and> (\<forall>f d. r = Inr (f, d) \<longrightarrow> f = local_filename url filename \<and> fs w' f \<noteq> None))"
proof (rule conjI)
  show "extract_from_location E zp et False w = (res, w') \<longrightarrow>
      (\<forall>p. Remove p \<notin> set (new_events w w')) \<and> dom (fs w) \<subseteq> dom (fs w')
      \<and> (\<forall>d. res = Inr d \<longrightarrow> fs w' zp \<noteq> None)"
    by (rule impI) (rule efl_no_cleanup)
  show "download_and_extract E url filename et False sp w = (r, w') \<longrightarrow>
      (\<forall>p. Remove p \<notin> set (new_events w w')) \<and> dom (fs w) \<subseteq> dom (fs w')
      \<and> (\<forall>f d. r = Inr (f, d) \<longrightarrow> f = local_filename url filename \<and> fs w' f \<noteq> None)"
    by (rule impI) (rule dae_no_cleanup)
qed

theorem no_cleanup_keeps_archive_witness:
  "(\<exists>w'. extract_from_location example_env ''data.zip'' ''out'' False example_world
            = (Inr ''out'', w')
        \<and> Remove ''data.zip'' \<notin> set (new_events example_world w')
        \<and> fs w' ''data.zip'' \<noteq> None \<and> fs w' ''junk.zip'' \<noteq> None)
   \<and> (\<exists>w'. extract_from_location example_env ''junk.zip'' ''out'' False example_world
            = (Inl BadZipFile, w')
        \<and> Remove ''junk.zip'' \<notin> set (new_events example_world w')
        \<and> fs w' ''junk.zip'' \<noteq> None)
   \<and> (\<exists>w'. download_and_extract example_env ''h/kept.zip'' None ''out'' False False
              example_world
            = (Inr (''kept.zip'', ''out''), w')
        \<and> Remove ''kept.zip'' \<notin> set (new_events example_world w')
        \<and> fs w' ''kept.zip'' \<noteq> None \<and> fs w' ''data.zip'' \<noteq> None)"
proof (intro conjI)
  let ?w = example_world
  have "fs ?w ''data.zip'' = Some (File ''PKok'')" "''data.zip'' \<noteq> ''out/a.txt''"
    "''data.zip'' \<noteq> ''out/sub/b.txt''"
    "fs ?w ''out/a.txt'' \<noteq> Some Dir" "fs ?w ''out/sub/b.txt'' \<noteq> Some Dir"
    by (simp_all add: example_world_def)
  from example_unzip[OF this]
  obtain w1 where u: "unzip_file example_env ''data.zip'' ''out'' ?w = (Inr ''out'', w1)"
    by blast
  obtain res w' where run: "extract_from_location example_env ''data.zip'' ''out'' False ?w
      = (res, w')" by force
  from run u have r: "res = Inr ''out''"
    by (simp add: extract_from_location_def cleanup_step_def)
  note t = no_cleanup_keeps_archive[THEN conjunct1, rule_format, OF run]
  from t have a: "Remove ''data.zip'' \<notin> set (new_events ?w w')" by simp
  from t have "dom (fs ?w) \<subseteq> dom (fs w')" by simp
  moreover have "''junk.zip'' \<in> dom (fs ?w)" by (simp add: dom_def)
  ultimately have b: "fs w' ''junk.zip'' \<noteq> None" by blast
  from t[THEN conjunct2, THEN conjunct2, rule_format, OF r]
  have c: "fs w' ''data.zip'' \<noteq> None" .
  from run r a b c show "\<exists>w'. extract_from_location example_env ''data.zip'' ''out'' False
        example_world = (Inr ''out'', w')
        \<and> Remove ''data.zip'' \<notin> set (new_events example_world w')
        \<and> fs w' ''data.zip'' \<noteq> None \<and> fs w' ''junk.zip'' \<noteq> None"
    by simp
next
  let ?w = example_world
  have "fs ?w ''junk.zip'' = Some (File ''hello'')" "zip_parse example_env ''hello'' = Inl BadZipFile"
    by simp_all
  from example_unzip_rejected[OF this]
  obtain w1 where u: "unzip_file example_env ''junk.zip'' ''out'' ?w = (Inl BadZipFile, w1)"
    by blast
  obtain res w' where run: "extract_from_location example_env ''junk.zip'' ''out'' False ?w
      = (res, w')" by force
  from run u have r: "res = Inl BadZipFile"
    by (simp add: extract_from_location_def)
  note t = no_cleanup_keeps_archive[THEN conjunct1, rule_format, OF run]
  from t have a: "Remove ''junk.zip'' \<notin> set (new_events ?w w')" by simp
  from t have "dom (fs ?w) \<subseteq> dom (fs w')" by simp
  moreover have "''junk.zip'' \<in> dom (fs ?w)" by (simp add: dom_def)
  ultimately have b: "fs w' ''junk.zip'' \<noteq> None" by blast
  from run r a b show "\<exists>w'. extract_from_location example_env ''junk.zip'' ''out'' False
        example_world = (Inl BadZipFile, w')
        \<and> Remove ''junk.zip'' \<notin> set (new_events example_world w')
        \<and> fs w' ''junk.zip'' \<noteq> None"
    by simp
next
  let ?w = example_world
  obtain w1 where d: "download_file example_env ''h/kept.zip'' None False example_world
      = (Inr ''kept.zip'', w1)"
    and f1: "fs w1 = (fs example_world)(''kept.zip'' \<mapsto> File ''PKok'')"
    using example_kept by blast
  from f1 have "fs w1 ''kept.zip'' = Some (File ''PKok'')" "''kept.zip'' \<noteq> ''out/a.txt''"
    "''kept.zip'' \<noteq> ''out/sub/b.txt''"
    "fs w1 ''out/a.txt'' \<noteq> Some Dir" "fs w1 ''out/sub/b.txt'' \<noteq> Some Dir"
    by (simp_all add: example_world_def)
  from example_unzip[OF this]
  obtain w2 where u: "unzip_file example_env ''kept.zip'' ''out'' w1 = (Inr ''out'', w2)"
    by blast
  obtain r w' where run: "download_and_extract example_env ''h/kept.zip'' None ''out'' False
      False ?w = (r, w')" by force
  from run d u have r: "r = Inr (''kept.zip'', ''out'')"
    by (simp add: download_and_extract_def cleanup_step_def)
  note t = no_cleanup_keeps_archive[THEN conjunct2, rule_format, OF run]
  from t have a: "Remove ''kept.zip'' \<notin> set (new_events ?w w')" by simp
  from t have "dom (fs ?w) \<subseteq> dom (fs w')" by simp
  moreover have "''data.zip'' \<in> dom (fs ?w)" by (simp add: dom_def)
  ultimately have b: "fs w' ''data.zip'' \<noteq> None" by blast
  from t[THEN conjunct2, THEN conjunct2, rule_format, OF r]
  have c: "fs w' ''kept.zip'' \<noteq> None" by simp
  from run r a b c show "\<exists>w'. download_and_extract example_env ''h/kept.zip'' None ''out''
        False False example_world = (Inr (''kept.zip'', ''out''), w')
        \<and> Remove ''kept.zip'' \<notin> set (new_events example_world w')
        \<and> fs w' ''kept.zip'' \<noteq> None \<and> fs w' ''data.zip'' \<noteq> None"
    by simp
qed

section \<open>Failures of the download\<close>

lemma download_body_get_fail:
  "requests_get E url = Inl e \<Longrightarrow>
     download_body E url fn sp w = (Inl e, emit (HttpGet url) w)"
  by (simp add: download_body_def Let_def)

lemma download_body_status:
  "requests_get E url = Inr r \<Longrightarrow> 400 \<le> status_code r \<Longrightarrow> status_code r < 600 \<Longrightarrow>
     download_body E url fn sp w = (Inl (HTTPError (status_code r)), emit (HttpGet url) w)"
  by (simp add: download_body_def Let_def raise_for_status_def)

lemma download_file_unfold:
  "download_file E url filename sp w =
     (case download_body E url (local_filename url filename) sp
             (println (''Downloading '' @ local_filename url filename @ '' from '' @ url @ ''...'') w) of
        (Inl e, w') \<Rightarrow>
          if is_RequestException e
          then (Inl e, emit (PrintExc ''Error downloading file: '' e) w')
          else (Inl e, w')
      | (Inr f, w') \<Rightarrow> (Inr f, w'))"
  by (subst download_file_local) (simp add: download_file_def)

lemma download_body_stream:
  assumes "download_body E url fn sp w = (res, w')" "requests_get E url = Inr r"
    "\<not> (400 \<le> status_code r \<and> status_code r < 600)"
  shows "(\<forall>e. body_error r = Some e \<longrightarrow>
            res = Inl e \<or> (\<exists>e'. res = Inl e' \<and> \<not> is_RequestException e'))
    \<and> (\<forall>e t. res = Inl e \<and> is_RequestException e \<and> total_size_of r = Inr t \<longrightarrow>
            body_error r = Some e
            \<and> fs w' = (fs w)(fn \<mapsto> File (if t = 0 \<or> \<not> sp then [] else concat (body r))))
    \<and> (\<forall>f. res = Inr f \<longrightarrow> body_error r = None)"
  using assms(1)
proof (cases rule: download_body_cases)
  case (get_fail e)
  with assms(2) show ?thesis by simp
next
  case (status r')
  with assms(2,3) show ?thesis by simp
next
  case (header r')
  then show ?thesis by simp
next
  case (open_fail r' t e)
  from open_wb_Inl[OF open_fail(4)] obtain n where "e = OSError n fn" by blast
  with open_fail(5) show ?thesis by simp
next
  case (whole_fail r' t u e)
  from whole_fail(1) assms(2) have rr: "r' = r" by simp
  from open_wb_Inr[OF whole_fail(4)] have "fs w' = (fs w)(fn \<mapsto> File [])" by simp
  with whole_fail(3,5,6,7) rr show ?thesis by auto
next
  case (whole_ok r' t u w2)
  from whole_ok(1) assms(2) have rr: "r' = r" by simp
  with whole_ok(6,7) show ?thesis by simp
next
  case (chunk_fail r' t u w2 e)
  from open_wb_Inr[OF chunk_fail(4)] have "fs w2 fn = Some (File [])" by simp
  from write_chunks_effect[OF chunk_fail(7) this]
  have "e = ZeroDivisionError \<or> e = OverflowError" by auto
  with chunk_fail(8) show ?thesis by auto
next
  case (stream_fail r' t u w2 d e)
  from stream_fail(1) assms(2) have rr: "r' = r" by simp
  from open_wb_Inr[OF stream_fail(4)] have o: "fs w2 = (fs w)(fn \<mapsto> File [])" by simp
  then have "fs w2 fn = Some (File [])" by simp
  from write_chunks_effect[OF stream_fail(7) this] obtain k where
    "fs w' = (fs w2)(fn \<mapsto> File ([] @ concat (take k (body r'))))" "k = length (body r')"
    by auto
  with o rr have "fs w' = (fs w)(fn \<mapsto> File (concat (body r)))" by simp
  with stream_fail(3,5,6,8,9) rr show ?thesis by auto
next
  case (chunk_ok r' t u w2 d w3)
  from chunk_ok(1) assms(2) have rr: "r' = r" by simp
  with chunk_ok(8,9) show ?thesis by simp
qed

lemma download_file_get_fail:
  assumes "download_file E url filename sp w = (res, w')" "requests_get E url = Inl e"
  shows "res = Inl e \<and> fs w' = fs w
    \<and> (is_RequestException e \<longrightarrow> last (trace w') = PrintExc ''Error downloading file: '' e)"
  using assms download_body_get_fail[OF assms(2)]
  by (auto simp: download_file_unfold split: if_splits)

lemma download_file_status:
  assumes "download_file E url filename sp w = (res, w')" "requests_get E url = Inr r"
    "400 \<le> status_code r" "status_code r < 600"
  shows "res = Inl (HTTPError (status_code r)) \<and> fs w' = fs w
    \<and> last (trace w') = PrintExc ''Error downloading file: '' (HTTPError (status_code r))"
  using assms(1) download_body_status[OF assms(2,3,4)]
  by (auto simp: download_file_unfold)

lemma download_file_stream:
  assumes "download_file E url filename sp w = (res, w')" "requests_get E url = Inr r"
    "\<not> (400 \<le> status_code r \<and> status_code r < 600)"
  shows "(\<forall>e. body_error r = Some e \<longrightarrow>
            res = Inl e \<or> (\<exists>e'. res = Inl e' \<and> \<not> is_RequestException e'))
    \<and> (\<forall>e t. res = Inl e \<and> is_RequestException e \<and> total_size_of r = Inr t \<longrightarrow>
            body_error r = Some e
            \<and> fs w' = (fs w)(local_filename url filename \<mapsto>
                        File (if t = 0 \<or> \<not> sp then [] else concat (body r)))
            \<and> last (trace w') = PrintExc ''Error downloading file: '' e)
    \<and> (\<forall>f. res = Inr f \<longrightarrow> body_error r = None)"
  using assms(1)
proof (cases rule: download_file_cases)
  case (fail e w1)
  note b = download_body_stream[OF fail(1) assms(2,3)]
  have "fs w' = fs w1" using fail(3) by simp
  moreover have "is_RequestException e \<longrightarrow> last (trace w') = PrintExc ''Error downloading file: '' e"
    using fail(3) by simp
  ultimately show ?thesis using b fail(2) by auto
next
  case (ok f)
  note b = download_body_stream[OF ok(1) assms(2,3)]
  with ok(2) show ?thesis by auto
qed

lemma download_file_returns:
  assumes "download_file E url filename sp w = (res, w')" "res = Inr f"
  shows "\<exists>r. requests_get E url = Inr r \<and> \<not> (400 \<le> status_code r \<and> status_code r < 600)
    \<and> body_error r = None"
proof (cases "requests_get E url")
  case (Inl e)
  from download_file_get_fail[OF assms(1) Inl] assms(2) show ?thesis by simp
next
  case (Inr r)
  show ?thesis
  proof (cases "400 \<le> status_code r \<and> status_code r < 600")
    case True
    then have "400 \<le> status_code r" "status_code r < 600" by simp_all
    from download_file_status[OF assms(1) Inr this] assms(2) show ?thesis by simp
  next
    case False
    from download_file_stream[OF assms(1) Inr False] assms(2) Inr False show ?thesis by simp
  qed
qed




end
